theory Spec2Isabelle
  imports
    Main
    "HOL-Library.Char_ord"
    "HOL-Library.List_Lexorder"
    "HOL-Library.Product_Lexorder"
begin

section \<open>Timestamps: Go's \<open>time.Time\<close> and the RFC3339 layout\<close>

text \<open>
  The store keeps every timestamp as text, written by \<open>t.Format(time.RFC3339)\<close> and read
  back by \<open>time.Parse(time.RFC3339, s)\<close>. A \<open>time.Time\<close> is an instant together with a
  location; what the layout \<open>2006-01-02T15:04:05Z07:00\<close> prints is the civil date and clock
  of that instant in its location, and the location's offset from UTC. The model keeps
  exactly these: the civil fields that the methods \<open>Year\<close>, \<open>Month\<close>, \<open>Day\<close>, \<open>Hour\<close>,
  \<open>Minute\<close>, \<open>Second\<close>, \<open>Nanosecond\<close> return, and the zone offset in minutes east of UTC
  (the layout prints no finer offset). The monotonic clock reading of \<open>time.Now()\<close> is not
  part of the model.
\<close>

record Time =
  Year :: int
  Month :: nat
  Day :: nat
  Hour :: nat
  Minute :: nat
  Second :: nat
  Nanosecond :: nat
  ZoneOffset :: int

definition is_leap :: "int \<Rightarrow> bool" where
  "is_leap y = (y mod 4 = 0 \<and> (y mod 100 \<noteq> 0 \<or> y mod 400 = 0))"

definition days_in :: "int \<Rightarrow> nat \<Rightarrow> nat" where
  "days_in y m =
     (if m = 2 then (if is_leap y then 29 else 28)
      else if m = 4 \<or> m = 6 \<or> m = 9 \<or> m = 11 then 30
      else 31)"

text \<open>The values a \<open>time.Time\<close> can have: a date of the proleptic Gregorian calendar, a clock
  reading, and an offset of less than a day.\<close>

definition valid_time :: "Time \<Rightarrow> bool" where
  "valid_time t =
     (1 \<le> Month t \<and> Month t \<le> 12 \<and> 1 \<le> Day t \<and> Day t \<le> days_in (Year t) (Month t) \<and>
      Hour t < 24 \<and> Minute t < 60 \<and> Second t < 60 \<and> Nanosecond t < 1000000000 \<and>
      - 1440 < ZoneOffset t \<and> ZoneOffset t < 1440)"

text \<open>The zero value of \<open>time.Time\<close>: January 1, year 1, 00:00:00 UTC.\<close>

definition zero_time :: Time where
  "zero_time = \<lparr>Year = 1, Month = 1, Day = 1, Hour = 0, Minute = 0, Second = 0,
                Nanosecond = 0, ZoneOffset = 0\<rparr>"

subsection \<open>The instant of a timestamp\<close>

definition days_before_year :: "int \<Rightarrow> int" where
  "days_before_year y = 365 * (y - 1) + (y - 1) div 4 - (y - 1) div 100 + (y - 1) div 400"

definition days_before_month :: "int \<Rightarrow> nat \<Rightarrow> nat" where
  "days_before_month y m = sum_list (map (days_in y) [1..<m])"

definition civil_seconds :: "Time \<Rightarrow> int" where
  "civil_seconds t =
     (days_before_year (Year t) + int (days_before_month (Year t) (Month t)) + int (Day t) - 1) * 86400
       + int (Hour t) * 3600 + int (Minute t) * 60 + int (Second t)"

text \<open>Seconds since January 1, year 1, 00:00:00 UTC: the civil reading minus the offset.\<close>

definition abs_seconds :: "Time \<Rightarrow> int" where
  "abs_seconds t = civil_seconds t - ZoneOffset t * 60"

text \<open>\<open>t.Before(u)\<close>: the instant of \<open>t\<close> is earlier than that of \<open>u\<close>.\<close>

definition Before :: "Time \<Rightarrow> Time \<Rightarrow> bool" where
  "Before t u =
     (abs_seconds t < abs_seconds u \<or>
      (abs_seconds t = abs_seconds u \<and> Nanosecond t < Nanosecond u))"

subsection \<open>\<open>Format(time.RFC3339)\<close>\<close>

definition digit_char :: "nat \<Rightarrow> char" where
  "digit_char d = char_of (48 + d)"

fun digits_of :: "nat \<Rightarrow> string" where
  "digits_of n = (if n < 10 then [digit_char n] else digits_of (n div 10) @ [digit_char (n mod 10)])"

declare digits_of.simps [simp del]

text \<open>\<open>appendInt(b, x, width)\<close>: a minus sign for a negative number, then its decimal digits
  left-padded with zeros to the width.\<close>

definition appendInt :: "int \<Rightarrow> nat \<Rightarrow> string" where
  "appendInt x width =
     (let ds = digits_of (nat \<bar>x\<bar>)
      in (if x < 0 then ''-'' else '''') @ replicate (width - length ds) CHR ''0'' @ ds)"

text \<open>The zone element \<open>Z07:00\<close>: \<open>Z\<close> for offset zero, otherwise sign, hours and minutes.\<close>

definition format_zone :: "int \<Rightarrow> string" where
  "format_zone z =
     (if z = 0 then ''Z''
      else (if z < 0 then ''-'' else ''+'') @
           appendInt (\<bar>z\<bar> div 60) 2 @ '':'' @ appendInt (\<bar>z\<bar> mod 60) 2)"

definition time_format :: "Time \<Rightarrow> string" where
  "time_format t =
     appendInt (Year t) 4 @ ''-'' @ appendInt (int (Month t)) 2 @ ''-'' @ appendInt (int (Day t)) 2 @
     ''T'' @ appendInt (int (Hour t)) 2 @ '':'' @ appendInt (int (Minute t)) 2 @ '':'' @
     appendInt (int (Second t)) 2 @ format_zone (ZoneOffset t)"

subsection \<open>\<open>time.Parse(time.RFC3339, s)\<close>\<close>

text \<open>
  The parser is modelled on the texts the store itself writes, which are the only ones its
  columns hold: four year digits, two digits for each other field, whole seconds, and a zone
  that is \<open>Z\<close> or a signed \<open>hh:mm\<close>. Fields out of range are an error, as in Go. Any other text
  is an error here. Go's parser accepts more than this one: a fraction of a second after the
  seconds, an hour written with one digit, and the zone offsets \<open>24\<close> hours and \<open>60\<close> minutes,
  which \<open>parse_zone\<close> refuses. \<open>Format\<close> writes none of these for a valid time, so the two
  parsers agree on every text that \<open>Create\<close> and \<open>Update\<close> store.
\<close>

definition is_digit :: "char \<Rightarrow> bool" where
  "is_digit c = (48 \<le> (of_char c :: nat) \<and> (of_char c :: nat) \<le> 57)"

definition digit_val :: "char \<Rightarrow> nat" where
  "digit_val c = of_char c - 48"

fun atoi_acc :: "nat \<Rightarrow> string \<Rightarrow> nat option" where
  "atoi_acc n [] = Some n"
| "atoi_acc n (c # cs) = (if is_digit c then atoi_acc (10 * n + digit_val c) cs else None)"

definition atoi :: "string \<Rightarrow> nat option" where
  "atoi s = (if s = [] then None else atoi_acc 0 s)"

definition parse_zone :: "string \<Rightarrow> int option" where
  "parse_zone s =
     (if s = ''Z'' then Some 0
      else if length s = 6 \<and> (s ! 0 = CHR ''+'' \<or> s ! 0 = CHR ''-'') \<and> s ! 3 = CHR '':'' then
        (case (atoi (take 2 (drop 1 s)), atoi (take 2 (drop 4 s))) of
           (Some h, Some m) \<Rightarrow>
             (if h < 24 \<and> m < 60
              then Some ((if s ! 0 = CHR ''-'' then - 1 else 1) * (int h * 60 + int m))
              else None)
         | _ \<Rightarrow> None)
      else None)"

definition time_parse :: "string \<Rightarrow> Time option" where
  "time_parse s =
     (if 20 \<le> length s \<and> s ! 4 = CHR ''-'' \<and> s ! 7 = CHR ''-'' \<and> s ! 10 = CHR ''T'' \<and>
         s ! 13 = CHR '':'' \<and> s ! 16 = CHR '':'' then
        Option.bind (atoi (take 4 s)) (\<lambda>y.
        Option.bind (atoi (take 2 (drop 5 s))) (\<lambda>mo.
        Option.bind (atoi (take 2 (drop 8 s))) (\<lambda>d.
        Option.bind (atoi (take 2 (drop 11 s))) (\<lambda>h.
        Option.bind (atoi (take 2 (drop 14 s))) (\<lambda>mi.
        Option.bind (atoi (take 2 (drop 17 s))) (\<lambda>sec.
        Option.bind (parse_zone (drop 19 s)) (\<lambda>z.
          (let t = \<lparr>Year = int y, Month = mo, Day = d, Hour = h, Minute = mi, Second = sec,
                    Nanosecond = 0, ZoneOffset = z\<rparr>
           in if valid_time t then Some t else None))))))))
      else None)"

subsection \<open>Auxiliary notions for the layout\<close>

text \<open>Two decimal digits of a number below 100.\<close>

definition pad2 :: "nat \<Rightarrow> string" where
  "pad2 n = [digit_char (n div 10), digit_char (n mod 10)]"

text \<open>Years that the layout prints with exactly four digits and no sign.\<close>

definition year_in_range :: "Time \<Rightarrow> bool" where
  "year_in_range t = (0 \<le> Year t \<and> Year t < 10000)"

text \<open>The civil reading without nanoseconds and zone, ordered lexicographically.\<close>

definition civil_key :: "Time \<Rightarrow> int \<times> nat \<times> nat \<times> nat \<times> nat \<times> nat" where
  "civil_key t = (Year t, Month t, Day t, Hour t, Minute t, Second t)"

text \<open>The parts of \<open>civil_seconds\<close>: the length of a year in days, the number of the day, and
  the seconds since midnight.\<close>

definition year_length :: "int \<Rightarrow> int" where
  "year_length y = (if is_leap y then 366 else 365)"

definition day_number :: "Time \<Rightarrow> int" where
  "day_number t =
     days_before_year (Year t) + int (days_before_month (Year t) (Month t)) + int (Day t) - 1"

definition clock_seconds :: "Time \<Rightarrow> int" where
  "clock_seconds t = int (Hour t) * 3600 + int (Minute t) * 60 + int (Second t)"

subsection \<open>Example readings of the clock\<close>

text \<open>Two clock readings within the same second, in the same zone.\<close>

definition noon_early :: Time where
  "noon_early = \<lparr>Year = 2024, Month = 5, Day = 1, Hour = 12, Minute = 0, Second = 0,
                 Nanosecond = 100000000, ZoneOffset = 180\<rparr>"

definition noon_late :: Time where
  "noon_late = \<lparr>Year = 2024, Month = 5, Day = 1, Hour = 12, Minute = 0, Second = 0,
                Nanosecond = 900000000, ZoneOffset = 180\<rparr>"

text \<open>Two clock readings around the end of daylight saving time in a zone that moves from
  UTC+3 to UTC+2: the first is taken at 00:30 UTC, the second forty minutes later.\<close>

definition before_shift :: Time where
  "before_shift = \<lparr>Year = 2024, Month = 10, Day = 27, Hour = 3, Minute = 30, Second = 0,
                   Nanosecond = 0, ZoneOffset = 180\<rparr>"

definition after_shift :: Time where
  "after_shift = \<lparr>Year = 2024, Month = 10, Day = 27, Hour = 3, Minute = 10, Second = 0,
                  Nanosecond = 0, ZoneOffset = 120\<rparr>"

section \<open>The domain model (package \<open>todo\<close>)\<close>

type_synonym Priority = int

definition PriorityLow :: Priority where "PriorityLow = 1"
definition PriorityMedium :: Priority where "PriorityMedium = 2"
definition PriorityHigh :: Priority where "PriorityHigh = 3"

text \<open>
  \<open>Task\<close> is the struct of the package. \<open>Priority\<close> is a Go \<open>int\<close> and \<open>ID\<close> an \<open>int64\<close>; the
  program does no arithmetic on either, so they are modelled as integers.

  Modelled from the spec: the field \<open>ClosedAt\<close>, an optional timestamp (\<open>closedAt\<close> of the
  task entity). The struct declaration under src/ does not list it, while the store reads and
  assigns \<open>t.ClosedAt\<close> as a \<open>*time.Time\<close> that may be \<open>nil\<close>.
\<close>

record Task =
  ID :: int
  Title :: string
  Description :: string
  Done :: bool
  Priority :: Priority
  CreatedAt :: Time
  UpdatedAt :: Time
  ClosedAt :: "Time option"

section \<open>The database (package \<open>store\<close>)\<close>

subsection \<open>Tables\<close>

datatype sqltype = INTEGER | TEXT

datatype sqlval = SqlNull | SqlInt int | SqlText string

record column =
  col_name :: string
  col_type :: sqltype
  col_notnull :: bool
  col_default :: "sqlval option"
  col_primary_key :: bool

text \<open>A row of \<open>tasks\<close> carries the eight columns the store reads and writes. \<open>closed_at\<close> is
  the only one that can be \<open>NULL\<close>; on a table that has no such column yet it is \<open>None\<close>.\<close>

record row =
  r_id :: int
  r_title :: string
  r_description :: string
  r_done :: int
  r_priority :: int
  r_created_at :: string
  r_updated_at :: string
  r_closed_at :: "string option"

text \<open>The \<open>tasks\<close> table: its column definitions, its rows in rowid order, and the largest
  rowid ever handed out (what \<open>AUTOINCREMENT\<close> keeps in \<open>sqlite_sequence\<close>).\<close>

record tasks_table =
  columns :: "column list"
  rows :: "row list"
  seq :: int

text \<open>The database file: each table is absent (\<open>None\<close>) or present; \<open>schema_version\<close> is the
  list of the values of its single column.\<close>

record database =
  tasks :: "tasks_table option"
  schema_version :: "int list option"

definition empty_database :: database where
  "empty_database = \<lparr>tasks = None, schema_version = None\<rparr>"

subsection \<open>Errors and the driver\<close>

datatype error =
    ErrDriver
  | ErrNoRows
  | ErrNoSuchTable
  | ErrNoSuchColumn
  | ErrDuplicateColumn
  | ErrNotNullWithoutDefault
  | ErrIndexOutOfRange
  | ErrMessage string
  | ErrWrap string error

text \<open>
  The handle \<open>*sql.DB\<close>: the database file it is open on, and the outcomes the driver will
  report for the coming calls on it, in order (\<open>True\<close>: the call fails without effect, as
  when the disk or the connection fails; an exhausted list means no further failures).
  Every call of \<open>Exec\<close>, \<open>Query\<close>, \<open>QueryRow\<close>, \<open>Begin\<close> and \<open>Commit\<close> consumes one outcome.
\<close>

record sqldb =
  db_file :: database
  faults :: "bool list"

definition driver_call :: "sqldb \<Rightarrow> bool \<times> sqldb" where
  "driver_call s = (case faults s of [] \<Rightarrow> (False, s) | f # fs \<Rightarrow> (f, s\<lparr>faults := fs\<rparr>))"

text \<open>\<open>db.Exec\<close> of a statement outside a transaction: it takes effect at once or not at all.\<close>

definition db_Exec :: "(database \<Rightarrow> error + database) \<Rightarrow> sqldb \<Rightarrow> error option \<times> sqldb" where
  "db_Exec stmt s =
     (case driver_call s of
        (True, s1) \<Rightarrow> (Some ErrDriver, s1)
      | (False, s1) \<Rightarrow>
          (case stmt (db_file s1) of
             Inl e \<Rightarrow> (Some e, s1)
           | Inr d \<Rightarrow> (None, s1\<lparr>db_file := d\<rparr>)))"

text \<open>A transaction works on a copy of the file: \<open>Begin\<close> takes it, \<open>tx.Exec\<close> changes it,
  \<open>Commit\<close> writes it back, \<open>Rollback\<close> (or a failed \<open>Commit\<close>) drops it.\<close>

definition db_Begin :: "sqldb \<Rightarrow> (error + database) \<times> sqldb" where
  "db_Begin s =
     (case driver_call s of
        (True, s1) \<Rightarrow> (Inl ErrDriver, s1)
      | (False, s1) \<Rightarrow> (Inr (db_file s1), s1))"

definition tx_Exec ::
  "(database \<Rightarrow> error + database) \<Rightarrow> database \<Rightarrow> sqldb \<Rightarrow> (error + database) \<times> sqldb" where
  "tx_Exec stmt w s =
     (case driver_call s of
        (True, s1) \<Rightarrow> (Inl ErrDriver, s1)
      | (False, s1) \<Rightarrow> (stmt w, s1))"

definition tx_Rollback :: "database \<Rightarrow> sqldb \<Rightarrow> sqldb" where
  "tx_Rollback w s = s"

definition tx_Commit :: "database \<Rightarrow> sqldb \<Rightarrow> error option \<times> sqldb" where
  "tx_Commit w s =
     (case driver_call s of
        (True, s1) \<Rightarrow> (Some ErrDriver, s1)
      | (False, s1) \<Rightarrow> (None, s1\<lparr>db_file := w\<rparr>))"

subsection \<open>\<open>initialSchema\<close>\<close>

definition initial_columns :: "column list" where
  "initial_columns =
     [\<lparr>col_name = ''id'', col_type = INTEGER, col_notnull = False, col_default = None,
       col_primary_key = True\<rparr>,
      \<lparr>col_name = ''title'', col_type = TEXT, col_notnull = True, col_default = None,
       col_primary_key = False\<rparr>,
      \<lparr>col_name = ''description'', col_type = TEXT, col_notnull = True,
       col_default = Some (SqlText ''''), col_primary_key = False\<rparr>,
      \<lparr>col_name = ''done'', col_type = INTEGER, col_notnull = True,
       col_default = Some (SqlInt 0), col_primary_key = False\<rparr>,
      \<lparr>col_name = ''priority'', col_type = INTEGER, col_notnull = True,
       col_default = Some (SqlInt 1), col_primary_key = False\<rparr>,
      \<lparr>col_name = ''created_at'', col_type = TEXT, col_notnull = True, col_default = None,
       col_primary_key = False\<rparr>,
      \<lparr>col_name = ''updated_at'', col_type = TEXT, col_notnull = True, col_default = None,
       col_primary_key = False\<rparr>]"

text \<open>The three statements of the script: create \<open>tasks\<close> if absent, create \<open>schema_version\<close>
  if absent, insert version 0 if \<open>schema_version\<close> has no row.\<close>

definition initialSchema :: "database \<Rightarrow> error + database" where
  "initialSchema d =
     (let d1 = (case tasks d of
                  None \<Rightarrow> d\<lparr>tasks := Some \<lparr>columns = initial_columns, rows = [], seq = 0\<rparr>\<rparr>
                | Some _ \<Rightarrow> d);
          d2 = (case schema_version d1 of
                  None \<Rightarrow> d1\<lparr>schema_version := Some []\<rparr>
                | Some _ \<Rightarrow> d1);
          d3 = (case schema_version d2 of
                  Some [] \<Rightarrow> d2\<lparr>schema_version := Some [0]\<rparr>
                | _ \<Rightarrow> d2)
      in Inr d3)"

text \<open>What SQLite stores in a column that an \<open>INSERT\<close> does not name: the column's default,
  or \<open>NULL\<close> when it has none.\<close>

definition value_when_omitted :: "column \<Rightarrow> sqlval" where
  "value_when_omitted c = (case col_default c of None \<Rightarrow> SqlNull | Some v \<Rightarrow> v)"

definition find_column :: "string \<Rightarrow> database \<Rightarrow> column option" where
  "find_column n d =
     (case tasks d of
        None \<Rightarrow> None
      | Some tb \<Rightarrow> find (\<lambda>c. col_name c = n) (columns tb))"

definition has_column :: "string \<Rightarrow> tasks_table \<Rightarrow> bool" where
  "has_column n tb = (n \<in> set (map col_name (columns tb)))"

subsection \<open>Migrations\<close>

text \<open>The statements of the list \<open>migrations\<close>, and of the examples its comment gives, all
  have the form \<open>ALTER TABLE tasks ADD COLUMN \<dots>\<close>.\<close>

datatype stmt = AlterTableTasksAddColumn column

definition migrations :: "stmt list" where
  "migrations =
     [AlterTableTasksAddColumn
        \<lparr>col_name = ''closed_at'', col_type = TEXT, col_notnull = False, col_default = None,
         col_primary_key = False\<rparr>]"

text \<open>\<open>ADD COLUMN\<close> fails on a missing table, on a column name already in use, and on a
  \<open>NOT NULL\<close> column without a default; the rows get the default in the new column.\<close>

definition default_text :: "column \<Rightarrow> string option" where
  "default_text c = (case col_default c of Some (SqlText s) \<Rightarrow> Some s | _ \<Rightarrow> None)"

fun exec_stmt :: "stmt \<Rightarrow> database \<Rightarrow> error + database" where
  "exec_stmt (AlterTableTasksAddColumn c) d =
     (case tasks d of
        None \<Rightarrow> Inl ErrNoSuchTable
      | Some tb \<Rightarrow>
          if has_column (col_name c) tb then Inl ErrDuplicateColumn
          else if col_notnull c \<and> value_when_omitted c = SqlNull then Inl ErrNotNullWithoutDefault
          else Inr (d\<lparr>tasks := Some (tb\<lparr>
                 columns := columns tb @ [c],
                 rows := (if col_name c = ''closed_at''
                          then map (\<lambda>r. r\<lparr>r_closed_at := default_text c\<rparr>) (rows tb)
                          else rows tb)\<rparr>)\<rparr>))"

text \<open>\<open>SELECT version FROM schema_version LIMIT 1\<close>, scanned into an \<open>int\<close>.\<close>

definition select_version :: "database \<Rightarrow> error + int" where
  "select_version d =
     (case schema_version d of
        None \<Rightarrow> Inl ErrNoSuchTable
      | Some [] \<Rightarrow> Inl ErrNoRows
      | Some (v # _) \<Rightarrow> Inr v)"

text \<open>\<open>UPDATE schema_version SET version = ?\<close>.\<close>

definition update_version :: "int \<Rightarrow> database \<Rightarrow> error + database" where
  "update_version v d =
     (case schema_version d of
        None \<Rightarrow> Inl ErrNoSuchTable
      | Some vs \<Rightarrow> Inr (d\<lparr>schema_version := Some (map (\<lambda>_. v) vs)\<rparr>))"

text \<open>The loop of \<open>migrate\<close>, from index \<open>i\<close>, over a list of migrations. \<open>i\<close> is a Go \<open>int\<close>
  read from the database: indexing the slice with a negative \<open>i\<close> panics.\<close>

function migrate_loop :: "stmt list \<Rightarrow> int \<Rightarrow> sqldb \<Rightarrow> error option \<times> sqldb" where
  "migrate_loop ms i s =
     (if i < int (length ms) then
        (case db_Begin s of
           (Inl e, s1) \<Rightarrow> (Some (ErrWrap (''begin migration '' @ appendInt (i + 1) 0) e), s1)
         | (Inr tx, s1) \<Rightarrow>
             if i < 0 then (Some ErrIndexOutOfRange, s1)
             else
               (case tx_Exec (exec_stmt (ms ! nat i)) tx s1 of
                  (Inl e, s2) \<Rightarrow>
                    (Some (ErrWrap (''run migration '' @ appendInt (i + 1) 0) e), tx_Rollback tx s2)
                | (Inr tx1, s2) \<Rightarrow>
                    (case tx_Exec (update_version (i + 1)) tx1 s2 of
                       (Inl e, s3) \<Rightarrow>
                         (Some (ErrWrap ''update schema version'' e), tx_Rollback tx1 s3)
                     | (Inr tx2, s3) \<Rightarrow>
                         (case tx_Commit tx2 s3 of
                            (Some e, s4) \<Rightarrow>
                              (Some (ErrWrap (''commit migration '' @ appendInt (i + 1) 0) e), s4)
                          | (None, s4) \<Rightarrow> migrate_loop ms (i + 1) s4))))
      else (None, s))"
  by pat_completeness auto
termination
  by (relation "measure (\<lambda>(ms, i, s). nat (int (length ms) - i))") auto

declare migrate_loop.simps [simp del]

definition migrate_list :: "stmt list \<Rightarrow> sqldb \<Rightarrow> error option \<times> sqldb" where
  "migrate_list ms s =
     (case driver_call s of
        (True, s1) \<Rightarrow> (Some (ErrWrap ''read schema version'' ErrDriver), s1)
      | (False, s1) \<Rightarrow>
          (case select_version (db_file s1) of
             Inl e \<Rightarrow> (Some (ErrWrap ''read schema version'' e), s1)
           | Inr version \<Rightarrow> migrate_loop ms version s1))"

definition migrate :: "sqldb \<Rightarrow> error option \<times> sqldb" where
  "migrate s = migrate_list migrations s"

text \<open>\<open>New\<close>: \<open>sql.Open\<close> only prepares the handle (it fails for an unknown driver name, not
  for this one); then the initial schema, then the migrations. The handle is returned when
  both succeed.\<close>

definition New :: "sqldb \<Rightarrow> error option \<times> sqldb" where
  "New s =
     (case db_Exec initialSchema s of
        (Some e, s1) \<Rightarrow> (Some (ErrWrap ''init schema'' e), s1)
      | (None, s1) \<Rightarrow>
          (case migrate s1 of
             (Some e, s2) \<Rightarrow> (Some (ErrWrap ''migrate'' e), s2)
           | (None, s2) \<Rightarrow> (None, s2)))"

subsection \<open>The repository operations of \<open>SQLiteStore\<close>\<close>

definition boolToInt :: "bool \<Rightarrow> int" where
  "boolToInt b = (if b then 1 else 0)"

text \<open>\<open>INSERT INTO tasks (title, description, done, priority, created_at, updated_at,
  closed_at) VALUES (?, ?, ?, ?, ?, ?, ?)\<close>: the table and the named columns must exist; the
  rowid is one more than the largest ever used. The result carries \<open>LastInsertId\<close>. The rowid
  is an unbounded integer here; SQLite refuses the insertion with \<open>SQLITE_FULL\<close> once the
  largest rowid \<open>2\<^sup>6\<^sup>3 - 1\<close> has been used.\<close>

definition next_rowid :: "tasks_table \<Rightarrow> int" where
  "next_rowid tb = fold max (map r_id (rows tb)) (seq tb) + 1"

definition insert_task ::
  "string \<Rightarrow> string \<Rightarrow> int \<Rightarrow> int \<Rightarrow> string \<Rightarrow> string \<Rightarrow> string option \<Rightarrow> database
     \<Rightarrow> error + (int \<times> database)" where
  "insert_task title description done_int priority created_at updated_at closed_at d =
     (case tasks d of
        None \<Rightarrow> Inl ErrNoSuchTable
      | Some tb \<Rightarrow>
          if \<not> has_column ''closed_at'' tb then Inl ErrNoSuchColumn
          else
            (let n = next_rowid tb;
                 r = \<lparr>r_id = n, r_title = title, r_description = description, r_done = done_int,
                      r_priority = priority, r_created_at = created_at,
                      r_updated_at = updated_at, r_closed_at = closed_at\<rparr>
             in Inr (n, d\<lparr>tasks := Some (tb\<lparr>rows := rows tb @ [r], seq := n\<rparr>)\<rparr>)))"

definition SQLiteStore_Create :: "Task \<Rightarrow> sqldb \<Rightarrow> error option \<times> Task \<times> sqldb" where
  "SQLiteStore_Create t s =
     (case driver_call s of
        (True, s1) \<Rightarrow> (Some ErrDriver, t, s1)
      | (False, s1) \<Rightarrow>
          (case insert_task (Title t) (Description t) (boolToInt (Done t)) (Priority t)
                  (time_format (CreatedAt t)) (time_format (UpdatedAt t)) None (db_file s1) of
             Inl e \<Rightarrow> (Some e, t, s1)
           | Inr (n, d) \<Rightarrow> (None, t\<lparr>ID := n\<rparr>, s1\<lparr>db_file := d\<rparr>)))"

text \<open>\<open>SELECT \<dots> FROM tasks ORDER BY done ASC, priority DESC, created_at ASC\<close>: the sort
  compares the integers of \<open>done\<close> and \<open>priority\<close> and the bytes of the text of \<open>created_at\<close>.
  SQL leaves the order of rows with equal keys open; the model keeps them in table order.\<close>

definition order_key :: "row \<Rightarrow> int \<times> int \<times> string" where
  "order_key r = (r_done r, - r_priority r, r_created_at r)"

definition select_tasks :: "database \<Rightarrow> error + row list" where
  "select_tasks d =
     (case tasks d of
        None \<Rightarrow> Inl ErrNoSuchTable
      | Some tb \<Rightarrow>
          if \<not> has_column ''closed_at'' tb then Inl ErrNoSuchColumn
          else Inr (sort_key order_key (rows tb)))"

text \<open>The body of the loop over the result rows. A timestamp that does not parse leaves the
  zero time in \<open>CreatedAt\<close> and \<open>UpdatedAt\<close> (the error is discarded) and \<open>nil\<close> in \<open>ClosedAt\<close>.\<close>

definition parse_or_zero :: "string \<Rightarrow> Time" where
  "parse_or_zero s = (case time_parse s of Some t \<Rightarrow> t | None \<Rightarrow> zero_time)"

definition scan_task :: "row \<Rightarrow> Task" where
  "scan_task r =
     \<lparr>ID = r_id r, Title = r_title r, Description = r_description r, Done = (r_done r \<noteq> 0),
      Priority = r_priority r, CreatedAt = parse_or_zero (r_created_at r),
      UpdatedAt = parse_or_zero (r_updated_at r),
      ClosedAt = (case r_closed_at r of None \<Rightarrow> None | Some c \<Rightarrow> time_parse c)\<rparr>"

definition SQLiteStore_List :: "sqldb \<Rightarrow> (error + Task list) \<times> sqldb" where
  "SQLiteStore_List s =
     (case driver_call s of
        (True, s1) \<Rightarrow> (Inl ErrDriver, s1)
      | (False, s1) \<Rightarrow>
          (case select_tasks (db_file s1) of
             Inl e \<Rightarrow> (Inl e, s1)
           | Inr rs \<Rightarrow> (Inr (map scan_task rs), s1)))"

text \<open>\<open>UPDATE tasks SET title=?, description=?, done=?, priority=?, updated_at=?,
  closed_at=? WHERE id=?\<close>; matching no row is not an error.\<close>

definition update_task ::
  "string \<Rightarrow> string \<Rightarrow> int \<Rightarrow> int \<Rightarrow> string \<Rightarrow> string option \<Rightarrow> int \<Rightarrow> database
     \<Rightarrow> error + database" where
  "update_task title description done_int priority updated_at closed_at rowid d =
     (case tasks d of
        None \<Rightarrow> Inl ErrNoSuchTable
      | Some tb \<Rightarrow>
          if \<not> has_column ''closed_at'' tb then Inl ErrNoSuchColumn
          else Inr (d\<lparr>tasks := Some (tb\<lparr>rows :=
                 map (\<lambda>r. if r_id r = rowid
                           then r\<lparr>r_title := title, r_description := description,
                                  r_done := done_int, r_priority := priority,
                                  r_updated_at := updated_at, r_closed_at := closed_at\<rparr>
                           else r)
                     (rows tb)\<rparr>)\<rparr>))"

text \<open>\<open>Update\<close> reads the clock (\<open>now\<close>), applies the rule for the closed timestamp to the
  task object, and then executes the statement. It returns the task object as it has left
  it, also when the statement fails.\<close>

definition SQLiteStore_Update :: "Time \<Rightarrow> Task \<Rightarrow> sqldb \<Rightarrow> error option \<times> Task \<times> sqldb" where
  "SQLiteStore_Update now t s =
     (let (t1, closedAt) =
            (if Done t then
               (case ClosedAt t of
                  None \<Rightarrow> (t\<lparr>ClosedAt := Some now\<rparr>, Some (time_format now))
                | Some c \<Rightarrow> (t, Some (time_format c)))
             else (t\<lparr>ClosedAt := None\<rparr>, None))
      in case db_Exec (update_task (Title t1) (Description t1) (boolToInt (Done t1)) (Priority t1)
                         (time_format (UpdatedAt t1)) closedAt (ID t1)) s of
           (err, s1) \<Rightarrow> (err, t1, s1))"

text \<open>\<open>DELETE FROM tasks WHERE id=?\<close>.\<close>

definition delete_task :: "int \<Rightarrow> database \<Rightarrow> error + database" where
  "delete_task rowid d =
     (case tasks d of
        None \<Rightarrow> Inl ErrNoSuchTable
      | Some tb \<Rightarrow> Inr (d\<lparr>tasks := Some (tb\<lparr>rows := filter (\<lambda>r. r_id r \<noteq> rowid) (rows tb)\<rparr>)\<rparr>))"

definition SQLiteStore_Delete :: "int \<Rightarrow> sqldb \<Rightarrow> error option \<times> sqldb" where
  "SQLiteStore_Delete rowid s = db_Exec (delete_task rowid) s"

section \<open>The service (package \<open>todo\<close>) over the SQLite store\<close>

text \<open>Each \<open>time.Now()\<close> is an argument: \<open>now\<close> is the reading the service takes, \<open>now'\<close> the
  one \<open>SQLiteStore.Update\<close> takes after it. A task passed by pointer is returned as the call
  leaves it.\<close>

definition Service_Add ::
  "Time \<Rightarrow> string \<Rightarrow> string \<Rightarrow> Priority \<Rightarrow> sqldb \<Rightarrow> (error + Task) \<times> sqldb" where
  "Service_Add now title description priority s =
     (let t = \<lparr>ID = 0, Title = title, Description = description, Done = False,
               Priority = priority, CreatedAt = now, UpdatedAt = now, ClosedAt = None\<rparr>
      in case SQLiteStore_Create t s of
           (Some err, t1, s1) \<Rightarrow> (Inl err, s1)
         | (None, t1, s1) \<Rightarrow> (Inr t1, s1))"

definition Service_All :: "sqldb \<Rightarrow> (error + Task list) \<times> sqldb" where
  "Service_All s = SQLiteStore_List s"

definition Service_Toggle :: "Time \<Rightarrow> Time \<Rightarrow> Task \<Rightarrow> sqldb \<Rightarrow> error option \<times> Task \<times> sqldb" where
  "Service_Toggle now now' t s =
     SQLiteStore_Update now' (t\<lparr>Done := \<not> Done t, UpdatedAt := now\<rparr>) s"

definition Service_Edit ::
  "Time \<Rightarrow> Time \<Rightarrow> Task \<Rightarrow> string \<Rightarrow> string \<Rightarrow> Priority \<Rightarrow> sqldb \<Rightarrow> error option \<times> Task \<times> sqldb" where
  "Service_Edit now now' t title description priority s =
     SQLiteStore_Update now'
       (t\<lparr>Title := title, Description := description, Priority := priority, UpdatedAt := now\<rparr>) s"

definition Service_Delete :: "int \<Rightarrow> sqldb \<Rightarrow> error option \<times> sqldb" where
  "Service_Delete rowid s = SQLiteStore_Delete rowid s"

section \<open>The task form of the desktop front end\<close>

definition parsePriority :: "string \<Rightarrow> Priority" where
  "parsePriority sel =
     (if sel = ''High'' then PriorityHigh
      else if sel = ''Medium'' then PriorityMedium
      else PriorityLow)"

text \<open>The callback of the dialog of \<open>showTaskForm\<close>: \<open>ok\<close> is the button pressed, \<open>existing\<close> the
  task being edited (\<open>None\<close> for a new one). The result is the error shown to the user, if any,
  the edited task object, and the store.\<close>

definition submitTaskForm ::
  "Time \<Rightarrow> Time \<Rightarrow> bool \<Rightarrow> Task option \<Rightarrow> string \<Rightarrow> string \<Rightarrow> string \<Rightarrow> sqldb
     \<Rightarrow> error option \<times> Task option \<times> sqldb" where
  "submitTaskForm now now' ok existing titleText descText selected s =
     (if \<not> ok then (None, existing, s)
      else if titleText = '''' then (Some (ErrMessage ''title cannot be empty''), existing, s)
      else
        (let pri = parsePriority selected
         in case existing of
              None \<Rightarrow>
                (case Service_Add now titleText descText pri s of
                   (Inl err, s1) \<Rightarrow> (Some err, None, s1)
                 | (Inr _, s1) \<Rightarrow> (None, None, s1))
            | Some t \<Rightarrow>
                (case Service_Edit now now' t titleText descText pri s of
                   (err, t1, s1) \<Rightarrow> (err, Some t1, s1))))"

section \<open>Notions and example states used in the statements\<close>

text \<open>A handle on a database file that does not exist yet, with a driver that never fails.\<close>

definition fresh_db :: sqldb where
  "fresh_db = \<lparr>db_file = empty_database, faults = []\<rparr>"

text \<open>The database file as \<open>New\<close> leaves it when it is opened for the first time.\<close>

definition bootstrapped :: database where
  "bootstrapped =
     \<lparr>tasks = Some \<lparr>columns = initial_columns @
          [\<lparr>col_name = ''closed_at'', col_type = TEXT, col_notnull = False, col_default = None,
            col_primary_key = False\<rparr>], rows = [], seq = 0\<rparr>,
      schema_version = Some [1]\<rparr>"

subsection \<open>Observations on the store\<close>

text \<open>The rows of \<open>tasks\<close> (none when the table is absent), and the row with a given id.\<close>

definition task_rows :: "database \<Rightarrow> row list" where
  "task_rows d = (case tasks d of None \<Rightarrow> [] | Some tb \<Rightarrow> rows tb)"

definition row_of :: "database \<Rightarrow> int \<Rightarrow> row option" where
  "row_of d i = find (\<lambda>r. r_id r = i) (task_rows d)"

text \<open>The state in which the repository operations work: \<open>tasks\<close> exists and has the column
  \<open>closed_at\<close>, as after a successful \<open>New\<close>.\<close>

definition tasks_ready :: "database \<Rightarrow> bool" where
  "tasks_ready d = (case tasks d of None \<Rightarrow> False | Some tb \<Rightarrow> has_column ''closed_at'' tb)"

text \<open>The rule of \<open>Update\<close> for the closed timestamp, on the task object and on the column.\<close>

definition closed_rule :: "Time \<Rightarrow> Task \<Rightarrow> Task" where
  "closed_rule now t =
     (if Done t then (case ClosedAt t of None \<Rightarrow> t\<lparr>ClosedAt := Some now\<rparr> | Some c \<Rightarrow> t)
      else t\<lparr>ClosedAt := None\<rparr>)"

definition write_row :: "Task \<Rightarrow> row \<Rightarrow> row" where
  "write_row t r =
     r\<lparr>r_title := Title t, r_description := Description t, r_done := boolToInt (Done t),
       r_priority := Priority t, r_updated_at := time_format (UpdatedAt t),
       r_closed_at := map_option time_format (ClosedAt t)\<rparr>"

text \<open>The task object and the store as a call that takes a task by pointer leaves them.\<close>

definition task_after :: "error option \<times> Task \<times> sqldb \<Rightarrow> Task" where
  "task_after res = fst (snd res)"

definition store_after :: "error option \<times> Task \<times> sqldb \<Rightarrow> sqldb" where
  "store_after res = snd (snd res)"

text \<open>A task as \<open>Add\<close> creates it, and a store whose driver fails at the next call.\<close>

definition sample_task :: Task where
  "sample_task = \<lparr>ID = 1, Title = ''Buy milk'', Description = '''', Done = False,
                  Priority = PriorityMedium, CreatedAt = noon_early, UpdatedAt = noon_early,
                  ClosedAt = None\<rparr>"

definition failing_db :: sqldb where
  "failing_db = \<lparr>db_file = bootstrapped, faults = [True]\<rparr>"

text \<open>A driver that reports no failure, on a database in which the repository works.\<close>

definition store_ok :: "sqldb \<Rightarrow> bool" where
  "store_ok s = (faults s = [] \<and> tasks_ready (db_file s))"

text \<open>What the database holds for the task with a given id: \<open>None\<close> when there is no such
  row, otherwise the value of the column.\<close>

definition persisted_done :: "sqldb \<Rightarrow> int \<Rightarrow> int option" where
  "persisted_done s i = map_option r_done (row_of (db_file s) i)"

definition persisted_closed_at :: "sqldb \<Rightarrow> int \<Rightarrow> string option option" where
  "persisted_closed_at s i = map_option r_closed_at (row_of (db_file s) i)"

text \<open>\<open>Toggle\<close> called on the same task object once for each pair of clock readings.\<close>

fun toggles :: "(Time \<times> Time) list \<Rightarrow> Task \<Rightarrow> sqldb \<Rightarrow> Task \<times> sqldb" where
  "toggles [] t s = (t, s)"
| "toggles ((now, now') # cs) t s =
     toggles cs (task_after (Service_Toggle now now' t s)) (store_after (Service_Toggle now now' t s))"

text \<open>The store after \<open>New\<close> on a new file and \<open>Add\<close> of one task.\<close>

definition one_task_db :: sqldb where
  "one_task_db =
     \<lparr>db_file = bootstrapped\<lparr>tasks := Some \<lparr>columns = initial_columns @
          [\<lparr>col_name = ''closed_at'', col_type = TEXT, col_notnull = False, col_default = None,
            col_primary_key = False\<rparr>],
          rows = [\<lparr>r_id = 1, r_title = ''Buy milk'', r_description = '''', r_done = 0,
                   r_priority = 2, r_created_at = ''2024-05-01T12:00:00+03:00'',
                   r_updated_at = ''2024-05-01T12:00:00+03:00'', r_closed_at = None\<rparr>],
          seq = 1\<rparr>\<rparr>,
      faults = []\<rparr>"

text \<open>The store of \<open>one_task_db\<close> after its task has been completed at noon.\<close>

definition completed_db :: sqldb where
  "completed_db =
     \<lparr>db_file = bootstrapped\<lparr>tasks := Some \<lparr>columns = initial_columns @
          [\<lparr>col_name = ''closed_at'', col_type = TEXT, col_notnull = False, col_default = None,
            col_primary_key = False\<rparr>],
          rows = [\<lparr>r_id = 1, r_title = ''Buy milk'', r_description = '''', r_done = 1,
                   r_priority = 2, r_created_at = ''2024-05-01T12:00:00+03:00'',
                   r_updated_at = ''2024-05-01T12:00:00+03:00'',
                   r_closed_at = Some ''2024-05-01T12:00:00+03:00''\<rparr>],
          seq = 1\<rparr>\<rparr>,
      faults = []\<rparr>"

text \<open>A database file written by the earlier version of the store (the one without
  migrations: seven columns, no \<open>schema_version\<close>), holding one task that was completed
  there.\<close>

definition legacy_db :: sqldb where
  "legacy_db =
     \<lparr>db_file = \<lparr>tasks = Some \<lparr>columns = initial_columns,
          rows = [\<lparr>r_id = 1, r_title = ''Buy milk'', r_description = '''', r_done = 1,
                   r_priority = 2, r_created_at = ''2024-05-01T12:00:00+03:00'',
                   r_updated_at = ''2024-05-01T12:00:00+03:00'', r_closed_at = None\<rparr>],
          seq = 1\<rparr>, schema_version = None\<rparr>,
      faults = []\<rparr>"

definition legacy_db_migrated :: sqldb where
  "legacy_db_migrated =
     \<lparr>db_file = \<lparr>tasks = Some \<lparr>columns = initial_columns @
          [\<lparr>col_name = ''closed_at'', col_type = TEXT, col_notnull = False, col_default = None,
            col_primary_key = False\<rparr>],
          rows = [\<lparr>r_id = 1, r_title = ''Buy milk'', r_description = '''', r_done = 1,
                   r_priority = 2, r_created_at = ''2024-05-01T12:00:00+03:00'',
                   r_updated_at = ''2024-05-01T12:00:00+03:00'', r_closed_at = None\<rparr>],
          seq = 1\<rparr>, schema_version = Some [1]\<rparr>,
      faults = []\<rparr>"

definition noon :: Time where
  "noon = \<lparr>Year = 2024, Month = 5, Day = 1, Hour = 12, Minute = 0, Second = 0,
           Nanosecond = 0, ZoneOffset = 180\<rparr>"

definition legacy_task :: Task where
  "legacy_task = \<lparr>ID = 1, Title = ''Buy milk'', Description = '''', Done = True,
                  Priority = PriorityMedium, CreatedAt = noon, UpdatedAt = noon,
                  ClosedAt = None\<rparr>"

text \<open>The row of the only task of \<open>one_task_db\<close>.\<close>

definition sample_row :: row where
  "sample_row = \<lparr>r_id = 1, r_title = ''Buy milk'', r_description = '''', r_done = 0,
                 r_priority = 2, r_created_at = ''2024-05-01T12:00:00+03:00'',
                 r_updated_at = ''2024-05-01T12:00:00+03:00'', r_closed_at = None\<rparr>"

text \<open>The row that \<open>Create\<close> inserts for a task, under a given rowid.\<close>

definition new_row :: "int \<Rightarrow> Task \<Rightarrow> row" where
  "new_row n t =
     \<lparr>r_id = n, r_title = Title t, r_description = Description t, r_done = boolToInt (Done t),
      r_priority = Priority t, r_created_at = time_format (CreatedAt t),
      r_updated_at = time_format (UpdatedAt t), r_closed_at = None\<rparr>"

subsection \<open>The migration discipline, as the specification words it\<close>

text \<open>The steps still to be applied to a database at version \<open>v\<close>, one after the other:
  each step is its statement followed by setting the stored version to its index, and takes
  effect as a whole or, when either part fails, not at all and ends the run with the error.\<close>

fun apply_pending :: "stmt list \<Rightarrow> int \<Rightarrow> database \<Rightarrow> error option \<times> database" where
  "apply_pending [] v d = (None, d)"
| "apply_pending (m # ms) v d =
     (case exec_stmt m d of
        Inl e \<Rightarrow> (Some (ErrWrap (''run migration '' @ appendInt (v + 1) 0) e), d)
      | Inr d1 \<Rightarrow>
          (case update_version (v + 1) d1 of
             Inl e \<Rightarrow> (Some (ErrWrap ''update schema version'' e), d)
           | Inr d2 \<Rightarrow> apply_pending ms (v + 1) d2))"

text \<open>The list \<open>migrations\<close> with the first of the future migrations that its comment gives
  as examples appended, \<open>ALTER TABLE tasks ADD COLUMN due_date TEXT\<close>.\<close>

definition migrations_with_due_date :: "stmt list" where
  "migrations_with_due_date =
     migrations @
     [AlterTableTasksAddColumn
        \<lparr>col_name = ''due_date'', col_type = TEXT, col_notnull = False, col_default = None,
         col_primary_key = False\<rparr>]"

definition bootstrapped_with_due_date :: database where
  "bootstrapped_with_due_date =
     \<lparr>tasks = Some \<lparr>columns = initial_columns @
          [\<lparr>col_name = ''closed_at'', col_type = TEXT, col_notnull = False, col_default = None,
            col_primary_key = False\<rparr>,
           \<lparr>col_name = ''due_date'', col_type = TEXT, col_notnull = False, col_default = None,
            col_primary_key = False\<rparr>], rows = [], seq = 0\<rparr>,
      schema_version = Some [2]\<rparr>"

text \<open>The database file after the initial schema, before any migration.\<close>

definition schema_only :: database where
  "schema_only =
     \<lparr>tasks = Some \<lparr>columns = initial_columns, rows = [], seq = 0\<rparr>, schema_version = Some [0]\<rparr>"

text \<open>A row as the store writes it, for a clock whose zone offset is \<open>z\<close>: \<open>done\<close> is 0 or 1,
  and \<open>created_at\<close> is the text of a timestamp with that offset (it parses, and formatting
  what it parses to gives the text back).\<close>

definition row_wf :: "int \<Rightarrow> row \<Rightarrow> bool" where
  "row_wf z r =
     ((r_done r = 0 \<or> r_done r = 1) \<and>
      (case time_parse (r_created_at r) of
         None \<Rightarrow> False
       | Some t \<Rightarrow> ZoneOffset t = z \<and> time_format t = r_created_at r))"


text \<open>The rows in the order in which the query of \<open>List\<close> returns them (none when the query
  fails), and a row whose \<open>done\<close> is 0 or 1, the two values the store writes.\<close>

definition listed_rows :: "sqldb \<Rightarrow> row list" where
  "listed_rows s = (case select_tasks (db_file s) of Inl e \<Rightarrow> [] | Inr rs \<Rightarrow> rs)"

definition stored_done :: "row \<Rightarrow> bool" where
  "stored_done r = (r_done r = 0 \<or> r_done r = 1)"

text \<open>The store after \<open>New\<close> on a new file and two calls of \<open>Add\<close>, the first at
  \<open>before_shift\<close> and the second, forty minutes later, at \<open>after_shift\<close>; and the two tasks as
  \<open>List\<close> reads them.\<close>

definition two_zone_db :: sqldb where
  "two_zone_db =
     \<lparr>db_file = bootstrapped\<lparr>tasks := Some \<lparr>columns = initial_columns @
          [\<lparr>col_name = ''closed_at'', col_type = TEXT, col_notnull = False, col_default = None,
            col_primary_key = False\<rparr>],
          rows = [\<lparr>r_id = 1, r_title = ''first'', r_description = '''', r_done = 0,
                   r_priority = 2, r_created_at = ''2024-10-27T03:30:00+03:00'',
                   r_updated_at = ''2024-10-27T03:30:00+03:00'', r_closed_at = None\<rparr>,
                  \<lparr>r_id = 2, r_title = ''second'', r_description = '''', r_done = 0,
                   r_priority = 2, r_created_at = ''2024-10-27T03:10:00+02:00'',
                   r_updated_at = ''2024-10-27T03:10:00+02:00'', r_closed_at = None\<rparr>],
          seq = 2\<rparr>\<rparr>,
      faults = []\<rparr>"

definition first_task :: Task where
  "first_task = \<lparr>ID = 1, Title = ''first'', Description = '''', Done = False,
                 Priority = PriorityMedium, CreatedAt = before_shift, UpdatedAt = before_shift,
                 ClosedAt = None\<rparr>"

definition second_task :: Task where
  "second_task = \<lparr>ID = 2, Title = ''second'', Description = '''', Done = False,
                  Priority = PriorityMedium, CreatedAt = after_shift, UpdatedAt = after_shift,
                  ClosedAt = None\<rparr>"

text \<open>A store with three tasks whose timestamps all carry the offset of three hours.\<close>

definition three_task_db :: sqldb where
  "three_task_db =
     \<lparr>db_file = bootstrapped\<lparr>tasks := Some \<lparr>columns = initial_columns @
          [\<lparr>col_name = ''closed_at'', col_type = TEXT, col_notnull = False, col_default = None,
            col_primary_key = False\<rparr>],
          rows = [\<lparr>r_id = 1, r_title = ''done'', r_description = '''', r_done = 1,
                   r_priority = 3, r_created_at = ''2024-05-01T12:00:00+03:00'',
                   r_updated_at = ''2024-05-01T12:00:00+03:00'',
                   r_closed_at = Some ''2024-05-01T12:00:00+03:00''\<rparr>,
                  \<lparr>r_id = 2, r_title = ''late'', r_description = '''', r_done = 0,
                   r_priority = 3, r_created_at = ''2024-10-27T03:30:00+03:00'',
                   r_updated_at = ''2024-10-27T03:30:00+03:00'', r_closed_at = None\<rparr>,
                  \<lparr>r_id = 3, r_title = ''early'', r_description = '''', r_done = 0,
                   r_priority = 3, r_created_at = ''2024-05-01T12:00:00+03:00'',
                   r_updated_at = ''2024-05-01T12:00:00+03:00'', r_closed_at = None\<rparr>],
          seq = 3\<rparr>\<rparr>,
      faults = []\<rparr>"

definition three_tasks_listed :: "Task list" where
  "three_tasks_listed =
     [\<lparr>ID = 3, Title = ''early'', Description = '''', Done = False, Priority = PriorityHigh,
       CreatedAt = noon, UpdatedAt = noon, ClosedAt = None\<rparr>,
      \<lparr>ID = 2, Title = ''late'', Description = '''', Done = False, Priority = PriorityHigh,
       CreatedAt = before_shift, UpdatedAt = before_shift, ClosedAt = None\<rparr>,
      \<lparr>ID = 1, Title = ''done'', Description = '''', Done = True, Priority = PriorityHigh,
       CreatedAt = noon, UpdatedAt = noon, ClosedAt = Some noon\<rparr>]"

text \<open>A timestamp cut to whole seconds, which is what writing it as text and parsing the text
  gives; and the timestamps the layout can carry there and back.\<close>

definition whole_seconds :: "Time \<Rightarrow> Time" where
  "whole_seconds t = t\<lparr>Nanosecond := 0\<rparr>"

definition time_ok :: "Time \<Rightarrow> bool" where
  "time_ok t = (valid_time t \<and> year_in_range t)"

definition closed_ok :: "Time option \<Rightarrow> bool" where
  "closed_ok c = (case c of None \<Rightarrow> True | Some t \<Rightarrow> time_ok t)"

section \<open>Properties of the timestamp layout\<close>

lemma of_char_digit_char: "d < 10 \<Longrightarrow> (of_char (digit_char d) :: nat) = 48 + d"
  by (simp add: digit_char_def)

lemma digit_char_less_iff: "d < 10 \<Longrightarrow> e < 10 \<Longrightarrow> digit_char d < digit_char e \<longleftrightarrow> d < e"
  by (simp add: less_char_def of_char_digit_char)

lemma digit_char_eq_iff: "d < 10 \<Longrightarrow> e < 10 \<Longrightarrow> digit_char d = digit_char e \<longleftrightarrow> d = e"
  by (metis of_char_digit_char add_left_cancel)

lemma is_digit_digit_char: "d < 10 \<Longrightarrow> is_digit (digit_char d)"
  by (simp add: is_digit_def of_char_digit_char)

lemma digit_val_digit_char: "d < 10 \<Longrightarrow> digit_val (digit_char d) = d"
  by (simp add: digit_val_def of_char_digit_char)

lemma digits_of_lt10: "n < 10 \<Longrightarrow> digits_of n = [digit_char n]"
  by (simp add: digits_of.simps)

lemma digits_of_lt100: "10 \<le> n \<Longrightarrow> n < 100 \<Longrightarrow> digits_of n = pad2 n"
  by (subst digits_of.simps) (simp add: pad2_def digits_of_lt10)

lemma digit_char_0: "CHR ''0'' = digit_char 0"
  by (simp add: digit_char_def char_of_def bit_0)

lemma digits_of_lt1000: "100 \<le> n \<Longrightarrow> n < 1000 \<Longrightarrow> digits_of n = digit_char (n div 100) # pad2 (n mod 100)"
proof -
  assume a: "100 \<le> n" "n < 1000"
  have m: "n mod 100 = 10 * (n div 10 mod 10) + n mod 10"
    using mod_mult2_eq [of n 10 10] by simp
  have e: "n div 10 div 10 = n div 100" "n div 10 mod 10 = n mod 100 div 10" "n mod 100 mod 10 = n mod 10"
    by (simp_all add: div_mult2_eq m)
  from a have b: "10 \<le> n div 10" "n div 10 < 100" by simp_all
  show ?thesis
    using a by (subst digits_of.simps) (simp add: digits_of_lt100 [OF b] pad2_def e)
qed

lemma appendInt_2: "n < 100 \<Longrightarrow> appendInt (int n) 2 = pad2 n"
  by (cases "n < 10") (simp_all add: appendInt_def digits_of_lt10 digits_of_lt100 pad2_def digit_char_0)

lemma lex_qr:
  fixes q r q' r' :: nat
  assumes "r < 10" "r' < 10"
  shows "10 * q + r < 10 * q' + r' \<longleftrightarrow> q < q' \<or> (q = q' \<and> r < r')"
  using assms by arith

lemma lex2_nat:
  fixes a b :: nat
  shows "a < b \<longleftrightarrow> a div 10 < b div 10 \<or> (a div 10 = b div 10 \<and> a mod 10 < b mod 10)"
  using lex_qr [of "a mod 10" "b mod 10" "a div 10" "b div 10"] by simp

lemma eq2_nat:
  fixes a b :: nat
  shows "a = b \<longleftrightarrow> a div 10 = b div 10 \<and> a mod 10 = b mod 10"
  by (metis div_mult_mod_eq)

lemma pad2_less_iff:
  assumes "a < 100" "b < 100"
  shows "pad2 a @ xs < pad2 b @ ys \<longleftrightarrow> a < b \<or> (a = b \<and> xs < ys)"
proof -
  have d: "a div 10 < 10" "b div 10 < 10" "a mod 10 < 10" "b mod 10 < 10"
    using assms by simp_all
  show ?thesis
    unfolding pad2_def append_Cons append_Nil Cons_less_Cons
      digit_char_less_iff [OF d(1,2)] digit_char_less_iff [OF d(3,4)]
      digit_char_eq_iff [OF d(1,2)] digit_char_eq_iff [OF d(3,4)]
    using lex2_nat [of a b] eq2_nat [of a b] by blast
qed

lemma div_mod_facts:
  fixes n :: nat
  shows "n div 10 div 10 = n div 100" "n div 10 mod 10 = n mod 100 div 10" "n mod 100 mod 10 = n mod 10"
proof -
  have m: "n mod 100 = 10 * (n div 10 mod 10) + n mod 10"
    using mod_mult2_eq [of n 10 10] by simp
  show "n div 10 div 10 = n div 100" "n div 10 mod 10 = n mod 100 div 10" "n mod 100 mod 10 = n mod 10"
    by (simp_all add: div_mult2_eq m)
qed

lemma appendInt_4:
  assumes "0 \<le> y" "y < 10000"
  shows "appendInt y 4 = pad2 (nat y div 100) @ pad2 (nat y mod 100)"
proof -
  define n where "n = nat y"
  have n: "n < 10000" "\<bar>y\<bar> = int n" "\<not> y < 0" using assms by (simp_all add: n_def)
  consider "n < 10" | "10 \<le> n" "n < 100" | "100 \<le> n" "n < 1000" | "1000 \<le> n"
    by linarith
  then have "replicate (4 - length (digits_of n)) CHR ''0'' @ digits_of n = pad2 (n div 100) @ pad2 (n mod 100)"
  proof cases
    case 1
    have r: "replicate 3 c = [c, c, c]" for c :: char by (simp add: numeral_3_eq_3)
    from 1 show ?thesis by (simp add: digits_of_lt10 pad2_def digit_char_0 r)
  next
    case 2
    have r: "replicate 2 c = [c, c]" for c :: char by (simp add: numeral_2_eq_2)
    from 2 show ?thesis by (simp add: digits_of_lt100 pad2_def digit_char_0 r)
  next
    case 3
    then have "n div 100 < 10" by simp
    with 3 show ?thesis by (simp add: digits_of_lt1000 pad2_def digit_char_0)
  next
    case 4
    with n have k: "100 \<le> n div 10" "n div 10 < 1000" by simp_all
    have "digits_of n = digits_of (n div 10) @ [digit_char (n mod 10)]"
      using 4 by (subst digits_of.simps) simp
    also have "\<dots> = digit_char (n div 10 div 100) # pad2 (n div 10 mod 100) @ [digit_char (n mod 10)]"
      by (simp add: digits_of_lt1000 [OF k])
    finally have d: "digits_of n = digit_char (n div 10 div 100) # pad2 (n div 10 mod 100) @ [digit_char (n mod 10)]" .
    have e1: "n div 10 div 100 = n div 100 div 10"
      by (simp add: div_mult2_eq [symmetric])
    have e2: "n div 10 mod 100 div 10 = n div 100 mod 10"
      using div_mod_facts(2) [of "n div 10"] div_mod_facts(1) [of n] by simp
    have e3: "n div 10 mod 100 mod 10 = n mod 100 div 10"
      using div_mod_facts(3) [of "n div 10"] div_mod_facts(2) [of n] by simp
    show ?thesis
      by (simp add: d pad2_def e1 e2 e3 div_mod_facts)
  qed
  then show ?thesis
    by (simp add: appendInt_def n n_def [symmetric])
qed

lemma days_in_le_31: "days_in y m \<le> 31"
  by (simp add: days_in_def)

lemma valid_time_bounds:
  assumes "valid_time t"
  shows "Month t < 100" "Day t < 100" "Hour t < 100" "Minute t < 100" "Second t < 100"
  using assms days_in_le_31 [of "Year t" "Month t"] by (simp_all add: valid_time_def)

lemma time_format_explicit:
  assumes "valid_time t" "year_in_range t"
  shows "time_format t =
    pad2 (nat (Year t) div 100) @ pad2 (nat (Year t) mod 100) @ CHR ''-'' # pad2 (Month t) @
    CHR ''-'' # pad2 (Day t) @ CHR ''T'' # pad2 (Hour t) @ CHR '':'' # pad2 (Minute t) @
    CHR '':'' # pad2 (Second t) @ format_zone (ZoneOffset t)"
  using assms(2) valid_time_bounds [OF assms(1)]
  by (simp add: time_format_def appendInt_2 appendInt_4 year_in_range_def)

lemma lex_qr100:
  fixes q r q' r' :: nat
  assumes "r < 100" "r' < 100"
  shows "100 * q + r < 100 * q' + r' \<longleftrightarrow> q < q' \<or> (q = q' \<and> r < r')"
  using assms by arith

lemma lex100_nat:
  fixes a b :: nat
  shows "a < b \<longleftrightarrow> a div 100 < b div 100 \<or> (a div 100 = b div 100 \<and> a mod 100 < b mod 100)"
  using lex_qr100 [of "a mod 100" "b mod 100" "a div 100" "b div 100"] by simp

lemma eq100_nat:
  fixes a b :: nat
  shows "a = b \<longleftrightarrow> a div 100 = b div 100 \<and> a mod 100 = b mod 100"
  by (metis div_mult_mod_eq)

lemma year_lex:
  assumes "0 \<le> y" "0 \<le> z"
  shows "y < z \<longleftrightarrow> nat y div 100 < nat z div 100 \<or> (nat y div 100 = nat z div 100 \<and> nat y mod 100 < nat z mod 100)"
    and "y = z \<longleftrightarrow> nat y div 100 = nat z div 100 \<and> nat y mod 100 = nat z mod 100"
proof -
  have "y < z \<longleftrightarrow> nat y < nat z"
    using assms by linarith
  then show "y < z \<longleftrightarrow> nat y div 100 < nat z div 100 \<or> (nat y div 100 = nat z div 100 \<and> nat y mod 100 < nat z mod 100)"
    using lex100_nat [of "nat y" "nat z"] by blast
  have "y = z \<longleftrightarrow> nat y = nat z"
    using assms by linarith
  then show "y = z \<longleftrightarrow> nat y div 100 = nat z div 100 \<and> nat y mod 100 = nat z mod 100"
    using eq100_nat [of "nat y" "nat z"] by blast
qed

lemma lex_pair:
  fixes a c :: "'a::linorder" and b d :: "'b::ord"
  shows "(a, b) < (c, d) \<longleftrightarrow> a < c \<or> (a = c \<and> b < d)"
  by (simp add: less_prod_def')

lemma time_format_less_iff:
  assumes "valid_time t" "year_in_range t" "valid_time u" "year_in_range u"
    and "ZoneOffset t = ZoneOffset u"
  shows "time_format t < time_format u \<longleftrightarrow> civil_key t < civil_key u"
proof -
  have y: "nat (Year t) div 100 < 100" "nat (Year u) div 100 < 100"
    "nat (Year t) mod 100 < 100" "nat (Year u) mod 100 < 100"
    using assms(2,4) by (auto simp add: year_in_range_def intro!: less_mult_imp_div_less)
  have nn: "0 \<le> Year t" "0 \<le> Year u"
    using assms(2,4) by (simp_all add: year_in_range_def)
  note b = valid_time_bounds [OF assms(1)] valid_time_bounds [OF assms(3)]
  show ?thesis
    unfolding time_format_explicit [OF assms(1,2)] time_format_explicit [OF assms(3,4)]
      civil_key_def lex_pair Cons_less_Cons assms(5)
      pad2_less_iff [OF y(1,2)] pad2_less_iff [OF y(3,4)]
      pad2_less_iff [OF b(1) b(6)] pad2_less_iff [OF b(2) b(7)] pad2_less_iff [OF b(3) b(8)]
      pad2_less_iff [OF b(4) b(9)] pad2_less_iff [OF b(5) b(10)]
      year_lex [OF nn] less_irrefl
    by blast
qed

lemma div_step:
  fixes y k :: int
  assumes "0 < k"
  shows "y div k = (y - 1) div k + (if y mod k = 0 then 1 else 0)"
proof (cases "y mod k = 0")
  case True
  have "y = k * (y div k) + y mod k" by simp
  with True have "y - 1 = k * (y div k - 1) + (k - 1)"
    by (simp add: algebra_simps)
  then have "(y - 1) div k = y div k - 1"
    by (rule int_div_pos_eq) (use assms in simp_all)
  with True show ?thesis by simp
next
  case False
  have m: "0 \<le> y mod k" "y mod k < k"
    using assms by simp_all
  have "y = k * (y div k) + y mod k" by simp
  then have "y - 1 = k * (y div k) + (y mod k - 1)"
    by simp
  then have "(y - 1) div k = y div k"
    by (rule int_div_pos_eq) (use m False in simp_all)
  with False show ?thesis by simp
qed

lemma leap_mods:
  fixes y :: int
  shows "y mod 400 = 0 \<Longrightarrow> y mod 100 = 0" "y mod 100 = 0 \<Longrightarrow> y mod 4 = 0"
proof -
  show "y mod 400 = 0 \<Longrightarrow> y mod 100 = 0"
    using mod_mod_cancel [of 100 400 y] by simp
  show "y mod 100 = 0 \<Longrightarrow> y mod 4 = 0"
    using mod_mod_cancel [of 4 100 y] by simp
qed

lemma leap_count:
  "(if y mod 4 = 0 then 1 else 0) - (if y mod 100 = 0 then 1 else 0) + (if y mod 400 = 0 then 1 else 0)
     = (if is_leap y then 1 else (0::int))"
proof (cases "y mod 4 = 0")
  case False
  with leap_mods [of y] show ?thesis by (auto simp add: is_leap_def)
next
  case True
  show ?thesis
  proof (cases "y mod 100 = 0")
    case False
    with True leap_mods [of y] show ?thesis by (auto simp add: is_leap_def)
  next
    case h: True
    with True show ?thesis by (simp add: is_leap_def)
  qed
qed

lemma days_before_year_Suc: "days_before_year (y + 1) = days_before_year y + year_length y"
proof -
  have "days_before_year (y + 1) = 365 * y + y div 4 - y div 100 + y div 400"
    by (simp add: days_before_year_def)
  also have "\<dots> = days_before_year y + 365 +
      ((if y mod 4 = 0 then 1 else 0) - (if y mod 100 = 0 then 1 else 0) + (if y mod 400 = 0 then 1 else 0))"
    unfolding days_before_year_def
    by (subst div_step [of 4 y], simp, subst div_step [of 100 y], simp, subst div_step [of 400 y], simp)
       (simp only: algebra_simps)
  also have "\<dots> = days_before_year y + year_length y"
    unfolding leap_count by (simp add: year_length_def)
  finally show ?thesis .
qed

lemma days_before_year_mono_nat: "days_before_year y \<le> days_before_year (y + int n)"
proof (induction n)
  case 0
  show ?case by simp
next
  case (Suc n)
  have "days_before_year (y + int (Suc n)) = days_before_year (y + int n) + year_length (y + int n)"
    using days_before_year_Suc [of "y + int n"] by (simp add: ac_simps)
  with Suc show ?case by (simp add: year_length_def)
qed

lemma days_before_year_less:
  assumes "y < z"
  shows "days_before_year y + year_length y \<le> days_before_year z"
proof -
  have "z = (y + 1) + int (nat (z - y - 1))" using assms by simp
  then have "days_before_year (y + 1) \<le> days_before_year z"
    using days_before_year_mono_nat [of "y + 1" "nat (z - y - 1)"] by simp
  then show ?thesis by (simp add: days_before_year_Suc)
qed

lemma days_before_month_Suc:
  "1 \<le> m \<Longrightarrow> days_before_month y (Suc m) = days_before_month y m + days_in y m"
  by (simp add: days_before_month_def)

lemma days_before_month_mono: "m \<le> n \<Longrightarrow> days_before_month y m \<le> days_before_month y n"
proof (induction n)
  case 0
  then show ?case by simp
next
  case (Suc n)
  show ?case
  proof (cases "m = Suc n")
    case True
    then show ?thesis by simp
  next
    case False
    with Suc have "days_before_month y m \<le> days_before_month y n" by simp
    also have "\<dots> \<le> days_before_month y (Suc n)"
      by (cases "n = 0") (simp_all add: days_before_month_def)
    finally show ?thesis .
  qed
qed

lemma days_before_month_13: "int (days_before_month y 13) = year_length y"
proof -
  have "[1..<13] = [1, 2, 3, 4, 5, 6, 7, 8, 9, 10, 11, 12::nat]"
    by (simp add: upt_rec)
  then show ?thesis
    by (simp add: days_before_month_def days_in_def year_length_def)
qed

lemma civil_seconds_split: "civil_seconds t = day_number t * 86400 + clock_seconds t"
  by (simp add: civil_seconds_def day_number_def clock_seconds_def)

lemma clock_seconds_bounds:
  assumes "valid_time t"
  shows "0 \<le> clock_seconds t" "clock_seconds t < 86400"
  using assms by (simp_all add: valid_time_def clock_seconds_def)

lemma day_of_year_bound:
  assumes "valid_time t"
  shows "int (days_before_month (Year t) (Month t)) + int (Day t) \<le> year_length (Year t)"
proof -
  from assms have m: "1 \<le> Month t" "Suc (Month t) \<le> 13" "Day t \<le> days_in (Year t) (Month t)"
    by (simp_all add: valid_time_def)
  have "days_before_month (Year t) (Month t) + Day t \<le> days_before_month (Year t) (Suc (Month t))"
    using m(3) by (simp add: days_before_month_Suc [OF m(1)])
  also have "\<dots> \<le> days_before_month (Year t) 13"
    by (rule days_before_month_mono [OF m(2)])
  finally have "int (days_before_month (Year t) (Month t) + Day t) \<le> int (days_before_month (Year t) 13)"
    by simp
  then show ?thesis by (simp add: days_before_month_13)
qed

lemma day_number_less:
  assumes "valid_time t" "valid_time u"
    and "(Year t, Month t, Day t) < (Year u, Month u, Day u)"
  shows "day_number t < day_number u"
proof -
  from assms(3) consider "Year t < Year u" | "Year t = Year u" "Month t < Month u"
    | "Year t = Year u" "Month t = Month u" "Day t < Day u"
    unfolding lex_pair by blast
  then show ?thesis
  proof cases
    case 1
    have "day_number t < days_before_year (Year t) + year_length (Year t)"
      using day_of_year_bound [OF assms(1)] by (simp add: day_number_def)
    also have "\<dots> \<le> days_before_year (Year u)"
      by (rule days_before_year_less [OF 1])
    also have "\<dots> \<le> day_number u"
      using assms(2) by (simp add: day_number_def valid_time_def)
    finally show ?thesis .
  next
    case 2
    from assms(1) have m: "1 \<le> Month t" "Day t \<le> days_in (Year t) (Month t)"
      by (simp_all add: valid_time_def)
    have "days_before_month (Year t) (Month t) + Day t \<le> days_before_month (Year t) (Suc (Month t))"
      using m(2) by (simp add: days_before_month_Suc [OF m(1)])
    also have "\<dots> \<le> days_before_month (Year t) (Month u)"
      using 2(2) by (intro days_before_month_mono) simp
    finally have "days_before_month (Year t) (Month t) + Day t \<le> days_before_month (Year u) (Month u)"
      using 2(1) by simp
    moreover have "1 \<le> Day u" using assms(2) by (simp add: valid_time_def)
    ultimately show ?thesis
      using 2(1) by (simp add: day_number_def)
  next
    case 3
    then show ?thesis by (simp add: day_number_def)
  qed
qed

lemma clock_seconds_less:
  assumes "valid_time t" "valid_time u"
    and "(Hour t, Minute t, Second t) < (Hour u, Minute u, Second u)"
  shows "clock_seconds t < clock_seconds u"
proof -
  from assms(3) consider "Hour t < Hour u" | "Hour t = Hour u" "Minute t < Minute u"
    | "Hour t = Hour u" "Minute t = Minute u" "Second t < Second u"
    unfolding lex_pair by blast
  then show ?thesis
    using assms(1,2) by cases (simp_all add: clock_seconds_def valid_time_def)
qed

lemma civil_seconds_less:
  assumes "valid_time t" "valid_time u" and "civil_key t < civil_key u"
  shows "civil_seconds t < civil_seconds u"
proof -
  from assms(3) consider "(Year t, Month t, Day t) < (Year u, Month u, Day u)"
    | "Year t = Year u" "Month t = Month u" "Day t = Day u"
      "(Hour t, Minute t, Second t) < (Hour u, Minute u, Second u)"
    unfolding civil_key_def lex_pair by blast
  then show ?thesis
  proof cases
    case 1
    have "day_number t + 1 \<le> day_number u"
      using day_number_less [OF assms(1,2) 1] by simp
    then have "(day_number t + 1) * 86400 \<le> day_number u * 86400"
      by simp
    then show ?thesis
      using clock_seconds_bounds [OF assms(1)] clock_seconds_bounds [OF assms(2)]
      by (simp add: civil_seconds_split algebra_simps)
  next
    case 2
    then have "day_number t = day_number u" by (simp add: day_number_def)
    then show ?thesis
      using clock_seconds_less [OF assms(1,2) 2(4)] by (simp add: civil_seconds_split)
  qed
qed

lemma civil_seconds_key_eq: "civil_key t = civil_key u \<Longrightarrow> civil_seconds t = civil_seconds u"
  by (simp add: civil_key_def civil_seconds_def)

lemma civil_seconds_less_iff:
  assumes "valid_time t" "valid_time u"
  shows "civil_seconds t < civil_seconds u \<longleftrightarrow> civil_key t < civil_key u"
proof
  assume "civil_key t < civil_key u"
  then show "civil_seconds t < civil_seconds u"
    by (rule civil_seconds_less [OF assms])
next
  assume l: "civil_seconds t < civil_seconds u"
  show "civil_key t < civil_key u"
  proof (rule ccontr)
    assume "\<not> civil_key t < civil_key u"
    then consider "civil_key u < civil_key t" | "civil_key t = civil_key u"
      using not_less_iff_gr_or_eq by blast
    then show False
    proof cases
      case 1
      from civil_seconds_less [OF assms(2,1) 1] l show False by simp
    next
      case 2
      from civil_seconds_key_eq [OF 2] l show False by simp
    qed
  qed
qed

lemma atoi_pad2: "n < 100 \<Longrightarrow> atoi (pad2 n) = Some n"
proof -
  assume "n < 100"
  then have d: "n div 10 < 10" "n mod 10 < 10" by simp_all
  show ?thesis
    by (simp add: atoi_def pad2_def is_digit_digit_char [OF d(1)] is_digit_digit_char [OF d(2)]
        digit_val_digit_char [OF d(1)] digit_val_digit_char [OF d(2)])
qed

lemma atoi_pad4: "a < 100 \<Longrightarrow> b < 100 \<Longrightarrow> atoi (pad2 a @ pad2 b) = Some (100 * a + b)"
proof -
  assume "a < 100" "b < 100"
  then have d: "a div 10 < 10" "a mod 10 < 10" "b div 10 < 10" "b mod 10 < 10" by simp_all
  have "10 * (10 * (10 * (a div 10) + a mod 10) + b div 10) + b mod 10 = 100 * a + b"
    by simp
  then show ?thesis
    by (simp add: atoi_def pad2_def is_digit_digit_char d digit_val_digit_char)
qed

lemma appendInt_2_int: "0 \<le> x \<Longrightarrow> x < 100 \<Longrightarrow> appendInt x 2 = pad2 (nat x)"
  using appendInt_2 [of "nat x"] by simp

lemma format_zone_explicit:
  assumes "- 1440 < z" "z < 1440" "z \<noteq> 0"
  shows "format_zone z = (if z < 0 then CHR ''-'' else CHR ''+'') #
           pad2 (nat \<bar>z\<bar> div 60) @ CHR '':'' # pad2 (nat \<bar>z\<bar> mod 60)"
proof -
  define n where "n = nat \<bar>z\<bar>"
  have z: "\<bar>z\<bar> = int n" by (simp add: n_def)
  have "n < 1440" using assms by (simp add: n_def)
  then have b: "n div 60 < 100" "n mod 60 < 100" by simp_all
  have i: "int n div 60 = int (n div 60)" "int n mod 60 = int (n mod 60)"
    by (simp_all add: zdiv_int zmod_int)
  show ?thesis
    unfolding format_zone_def z i appendInt_2 [OF b(1)] appendInt_2 [OF b(2)] n_def [symmetric]
    using assms(3) by simp
qed

lemma parse_zone_format_zone:
  assumes "- 1440 < z" "z < 1440"
  shows "parse_zone (format_zone z) = Some z"
proof (cases "z = 0")
  case True
  then show ?thesis by (simp add: format_zone_def parse_zone_def)
next
  case False
  define n where "n = nat \<bar>z\<bar>"
  have b: "n div 60 < 100" "n mod 60 < 100" "n div 60 < 24" "n mod 60 < 60"
    using assms by (simp_all add: n_def less_mult_imp_div_less)
  have "int (n div 60 * 60 + n mod 60) = int n"
    by simp
  then have z: "int (n div 60) * 60 + int (n mod 60) = \<bar>z\<bar>"
    unfolding of_nat_add of_nat_mult by (simp add: n_def)
  have e: "format_zone z = (if z < 0 then CHR ''-'' else CHR ''+'') # pad2 (n div 60) @ CHR '':'' # pad2 (n mod 60)"
    unfolding n_def by (rule format_zone_explicit [OF assms False])
  have l: "length (pad2 k) = 2" "pad2 k \<noteq> []" for k by (simp_all add: pad2_def)
  have t1: "take 2 (drop 1 (c # pad2 h @ c' # pad2 m)) = pad2 h" for c c' h m
    by (simp add: pad2_def)
  have t2: "take 2 (drop 4 (c # pad2 h @ c' # pad2 m)) = pad2 m" for c c' h m
    by (simp add: pad2_def)
  have t3: "(c # pad2 h @ c' # pad2 m) ! 3 = c'" "(c # pad2 h @ c' # pad2 m) ! 0 = c"
    "length (c # pad2 h @ c' # pad2 m) = 6" "c # pad2 h @ c' # pad2 m \<noteq> ''Z''" for c c' h m
    by (simp_all add: pad2_def)
  show ?thesis
    unfolding e parse_zone_def t1 t2 t3 atoi_pad2 [OF b(1)] atoi_pad2 [OF b(2)]
    using b(3,4) z by (simp split: if_splits)
qed

lemma format_zone_nonempty: "- 1440 < z \<Longrightarrow> z < 1440 \<Longrightarrow> 1 \<le> length (format_zone z)"
  by (cases "z = 0") (simp_all add: format_zone_explicit, simp add: format_zone_def)

lemma layout_shape:
  fixes zs :: string
  defines "S a b mo d h mi sec \<equiv> pad2 a @ pad2 b @ CHR ''-'' # pad2 mo @ CHR ''-'' # pad2 d @
     CHR ''T'' # pad2 h @ CHR '':'' # pad2 mi @ CHR '':'' # pad2 sec @ zs"
  shows "length (S a b mo d h mi sec) = 19 + length zs"
    and "S a b mo d h mi sec ! 4 = CHR ''-''" and "S a b mo d h mi sec ! 7 = CHR ''-''"
    and "S a b mo d h mi sec ! 10 = CHR ''T''" and "S a b mo d h mi sec ! 13 = CHR '':''"
    and "S a b mo d h mi sec ! 16 = CHR '':''"
    and "take 4 (S a b mo d h mi sec) = pad2 a @ pad2 b"
    and "take 2 (drop 5 (S a b mo d h mi sec)) = pad2 mo"
    and "take 2 (drop 8 (S a b mo d h mi sec)) = pad2 d"
    and "take 2 (drop 11 (S a b mo d h mi sec)) = pad2 h"
    and "take 2 (drop 14 (S a b mo d h mi sec)) = pad2 mi"
    and "take 2 (drop 17 (S a b mo d h mi sec)) = pad2 sec"
    and "drop 19 (S a b mo d h mi sec) = zs"
  by (simp_all add: S_def pad2_def)

lemma time_parse_format:
  assumes "valid_time t" "year_in_range t"
  shows "time_parse (time_format t) = Some (t\<lparr>Nanosecond := 0\<rparr>)"
proof -
  define y where "y = nat (Year t)"
  have y: "y div 100 < 100" "y mod 100 < 100" "int (100 * (y div 100) + y mod 100) = Year t"
    using assms(2) by (auto simp add: y_def year_in_range_def intro!: less_mult_imp_div_less)
  have yy: "int y = Year t"
    using assms(2) by (simp add: y_def year_in_range_def)
  note b = valid_time_bounds [OF assms(1)]
  have z: "- 1440 < ZoneOffset t" "ZoneOffset t < 1440"
    using assms(1) by (simp_all add: valid_time_def)
  have v: "valid_time (t\<lparr>Nanosecond := 0\<rparr>)"
    using assms(1) by (simp add: valid_time_def)
  have r: "\<lparr>Year = Year t, Month = Month t, Day = Day t, Hour = Hour t, Minute = Minute t,
      Second = Second t, Nanosecond = 0, ZoneOffset = ZoneOffset t\<rparr> = t\<lparr>Nanosecond := 0\<rparr>"
    by simp
  show ?thesis
    unfolding time_parse_def time_format_explicit [OF assms] y_def [symmetric] layout_shape
      atoi_pad4 [OF y(1,2)] atoi_pad2 [OF b(1)] atoi_pad2 [OF b(2)] atoi_pad2 [OF b(3)]
      atoi_pad2 [OF b(4)] atoi_pad2 [OF b(5)] parse_zone_format_zone [OF z] y(3)
    using format_zone_nonempty [OF z] v yy by (simp add: r Let_def)
qed

subsection \<open>What the layout keeps of the order of time\<close>

lemmas example_times = noon_early_def noon_late_def before_shift_def after_shift_def

lemma example_times_valid:
  "valid_time noon_early" "valid_time noon_late" "valid_time before_shift" "valid_time after_shift"
  "year_in_range noon_early" "year_in_range noon_late" "year_in_range before_shift"
  "year_in_range after_shift"
  by (simp_all add: example_times valid_time_def year_in_range_def days_in_def is_leap_def)

lemma example_times_format:
  "time_format noon_early = ''2024-05-01T12:00:00+03:00''"
  "time_format noon_late = ''2024-05-01T12:00:00+03:00''"
  "time_format before_shift = ''2024-10-27T03:30:00+03:00''"
  "time_format after_shift = ''2024-10-27T03:10:00+02:00''"
  by (simp_all add: example_times time_format_def appendInt_def digits_of.simps digit_char_def
      format_zone_def char_of_def bit_simps)

lemma example_times_seconds:
  "abs_seconds noon_late = abs_seconds noon_early"
  "abs_seconds after_shift = abs_seconds before_shift + 2400"
  by (simp_all add: example_times abs_seconds_def civil_seconds_def)

text \<open>C7 (as stated, refuted): the layout is not order-preserving on the timestamps the store
  persists. Two readings of the clock within one second are in chronological order but have
  the same text, and a reading taken after the zone offset has changed can be later in time
  and yet smaller as text.\<close>

theorem rfc3339_not_order_preserving:
  "Before noon_early noon_late \<and> \<not> time_format noon_early < time_format noon_late \<and>
   Before before_shift after_shift \<and> time_format after_shift < time_format before_shift"
  by (simp add: Before_def example_times_format example_times_seconds)
     (simp add: example_times)

text \<open>C7 (amended): for timestamps with the same zone offset and a year from 0 to 9999, the
  text of one is lexicographically below the text of the other exactly when its instant,
  counted in whole seconds, is earlier.\<close>

theorem rfc3339_order_same_zone:
  assumes "valid_time t" "year_in_range t" "valid_time u" "year_in_range u"
    and "ZoneOffset t = ZoneOffset u"
  shows "time_format t < time_format u \<longleftrightarrow> abs_seconds t < abs_seconds u"
  unfolding time_format_less_iff [OF assms] abs_seconds_def assms(5)
  using civil_seconds_less_iff [OF assms(1,3)] by simp

theorem rfc3339_order_same_zone_witness:
  "ZoneOffset noon_early = ZoneOffset before_shift \<and>
   (time_format noon_early < time_format before_shift
      \<longleftrightarrow> abs_seconds noon_early < abs_seconds before_shift) \<and>
   time_format noon_early < time_format before_shift"
proof -
  have z: "ZoneOffset noon_early = ZoneOffset before_shift"
    by (simp add: example_times)
  show ?thesis
    using rfc3339_order_same_zone [OF example_times_valid(1,5,3,7) z] z
    by (simp add: example_times_format)
qed

section \<open>The schema created on first opening\<close>

lemma driver_call_no_faults: "faults s = [] \<Longrightarrow> driver_call s = (False, s)"
  by (simp add: driver_call_def)

lemma New_fresh_db: "New fresh_db = (None, \<lparr>db_file = bootstrapped, faults = []\<rparr>)"
  by (simp add: New_def db_Exec_def driver_call_def fresh_db_def empty_database_def
      initialSchema_def migrate_def migrate_list_def select_version_def migrations_def
      migrate_loop.simps [of _ 0] migrate_loop.simps [of _ 1] db_Begin_def tx_Exec_def
      tx_Commit_def update_version_def has_column_def initial_columns_def value_when_omitted_def
      bootstrapped_def)

lemma priority_column_bootstrapped:
  "find_column ''priority'' bootstrapped =
     Some \<lparr>col_name = ''priority'', col_type = INTEGER, col_notnull = True,
           col_default = Some (SqlInt 1), col_primary_key = False\<rparr>"
  by (simp add: find_column_def bootstrapped_def initial_columns_def)

text \<open>C9 (as stated, refuted): in the schema that the first \<open>New\<close> creates, a row inserted
  without a priority does not get priority Medium.\<close>

theorem priority_default_is_not_medium:
  "map_option value_when_omitted (find_column ''priority'' (db_file (snd (New fresh_db))))
     \<noteq> Some (SqlInt PriorityMedium)"
  by (simp add: New_fresh_db priority_column_bootstrapped value_when_omitted_def PriorityMedium_def)

text \<open>C9 (amended): in the schema that the first \<open>New\<close> creates, the column \<open>priority\<close> of
  \<open>tasks\<close> is \<open>NOT NULL\<close> with default 1, so a row inserted without a priority has priority
  Low.\<close>

theorem priority_default_is_low:
  "map_option (\<lambda>c. (col_notnull c, col_default c, value_when_omitted c))
       (find_column ''priority'' (db_file (snd (New fresh_db))))
     = Some (True, Some (SqlInt 1), SqlInt PriorityLow)"
  by (simp add: New_fresh_db priority_column_bootstrapped value_when_omitted_def PriorityLow_def)

section \<open>\<open>Update\<close> and the closed timestamp\<close>

lemma closed_rule_fields [simp]:
  "ID (closed_rule now t) = ID t" "Title (closed_rule now t) = Title t"
  "Description (closed_rule now t) = Description t" "Done (closed_rule now t) = Done t"
  "Priority (closed_rule now t) = Priority t" "CreatedAt (closed_rule now t) = CreatedAt t"
  "UpdatedAt (closed_rule now t) = UpdatedAt t"
  by (simp_all add: closed_rule_def split: option.split)

lemma closed_rule_ClosedAt:
  "ClosedAt (closed_rule now t) =
     (if Done t then (case ClosedAt t of None \<Rightarrow> Some now | Some c \<Rightarrow> Some c) else None)"
  by (simp add: closed_rule_def split: option.split)

lemma Update_task: "fst (snd (SQLiteStore_Update now t s)) = closed_rule now t"
  by (simp add: SQLiteStore_Update_def closed_rule_def split: option.split prod.split)

lemma db_Exec_error_keeps_file: "db_Exec f s = (Some e, s') \<Longrightarrow> db_file s' = db_file s"
  by (auto simp add: db_Exec_def driver_call_def split: list.splits bool.splits sum.splits if_splits)

lemma Update_error_keeps_file:
  "SQLiteStore_Update now t s = (Some e, t', s') \<Longrightarrow> db_file s' = db_file s"
  by (auto simp add: SQLiteStore_Update_def split: option.splits prod.splits if_splits
      dest: db_Exec_error_keeps_file)

lemma find_map_update:
  assumes "\<And>r. r_id (g r) = r_id r"
  shows "find (\<lambda>r. r_id r = i) (map (\<lambda>r. if r_id r = i then g r else r) xs)
           = map_option g (find (\<lambda>r. r_id r = i) xs)"
  by (induction xs) (simp_all add: assms)

lemma find_map_other:
  assumes "\<And>r. r_id (g r) = r_id r" "j \<noteq> i"
  shows "find (\<lambda>r. r_id r = j) (map (\<lambda>r. if r_id r = i then g r else r) xs)
           = find (\<lambda>r. r_id r = j) xs"
  using assms(2) by (induction xs) (simp_all add: assms(1))

lemma Update_ok:
  assumes "faults s = []" "tasks_ready (db_file s)"
  shows "\<exists>d. SQLiteStore_Update now t s = (None, closed_rule now t, s\<lparr>db_file := d\<rparr>) \<and>
             tasks_ready d \<and>
             row_of d (ID t) = map_option (write_row (closed_rule now t)) (row_of (db_file s) (ID t)) \<and>
             (\<forall>j. j \<noteq> ID t \<longrightarrow> row_of d j = row_of (db_file s) j)"
proof -
  from assms(2) obtain tb where tb: "tasks (db_file s) = Some tb" "has_column ''closed_at'' tb"
    by (auto simp add: tasks_ready_def split: option.splits)
  define g where "g = write_row (closed_rule now t)"
  have g: "r_id (g r) = r_id r" for r by (simp add: g_def write_row_def)
  define d where "d = (db_file s)\<lparr>tasks := Some (tb\<lparr>rows :=
      map (\<lambda>r. if r_id r = ID t then g r else r) (rows tb)\<rparr>)\<rparr>"
  have u: "SQLiteStore_Update now t s = (None, closed_rule now t, s\<lparr>db_file := d\<rparr>)"
    using assms(1) tb
    by (auto simp add: SQLiteStore_Update_def db_Exec_def driver_call_def update_task_def
        closed_rule_def d_def g_def write_row_def split: option.splits)
  have "tasks_ready d"
    using tb by (simp add: d_def tasks_ready_def has_column_def)
  moreover have "row_of d (ID t) = map_option g (row_of (db_file s) (ID t))"
    using tb by (simp add: row_of_def task_rows_def d_def find_map_update [of g, OF g])
  moreover have "row_of d j = row_of (db_file s) j" if "j \<noteq> ID t" for j
    using tb that by (simp add: row_of_def task_rows_def d_def find_map_other [of g, OF g])
  ultimately show ?thesis
    using u unfolding g_def by blast
qed

lemma Update_failing:
  "faults s = True # fs \<Longrightarrow>
     SQLiteStore_Update now t s = (Some ErrDriver, closed_rule now t, s\<lparr>faults := fs\<rparr>)"
  by (simp add: SQLiteStore_Update_def db_Exec_def driver_call_def closed_rule_def
      split: option.split)

text \<open>C10: \<open>Toggle\<close> and \<open>Edit\<close> change the task object before they call the repository, and
  \<open>Update\<close> does not undo it: when \<open>Update\<close> returns an error, the task object has the flipped
  \<open>Done\<close> and the new \<open>UpdatedAt\<close> (for \<open>Edit\<close>: the new title, description, priority and
  \<open>UpdatedAt\<close>), while the database file is as it was.\<close>

theorem failed_update_keeps_new_values:
  "(Service_Toggle now now' t s = (Some e, t', s') \<longrightarrow>
      Done t' = (\<not> Done t) \<and> UpdatedAt t' = now \<and> Done t' \<noteq> Done t \<and> db_file s' = db_file s) \<and>
   (Service_Edit now now' t title description priority s = (Some e', t'', s'') \<longrightarrow>
      Title t'' = title \<and> Description t'' = description \<and> Priority t'' = priority \<and>
      UpdatedAt t'' = now \<and> db_file s'' = db_file s)"
proof (intro conjI impI)
  assume a: "Service_Toggle now now' t s = (Some e, t', s')"
  then have "t' = closed_rule now' (t\<lparr>Done := \<not> Done t, UpdatedAt := now\<rparr>)"
    using Update_task [of now' "t\<lparr>Done := \<not> Done t, UpdatedAt := now\<rparr>" s]
    by (simp add: Service_Toggle_def)
  then show "Done t' = (\<not> Done t)" "UpdatedAt t' = now" "Done t' \<noteq> Done t"
    by simp_all
  from a show "db_file s' = db_file s"
    unfolding Service_Toggle_def by (rule Update_error_keeps_file)
next
  assume a: "Service_Edit now now' t title description priority s = (Some e', t'', s'')"
  then have "t'' = closed_rule now' (t\<lparr>Title := title, Description := description,
      Priority := priority, UpdatedAt := now\<rparr>)"
    using Update_task [of now' "t\<lparr>Title := title, Description := description,
      Priority := priority, UpdatedAt := now\<rparr>" s]
    by (simp add: Service_Edit_def)
  then show "Title t'' = title" "Description t'' = description" "Priority t'' = priority"
    "UpdatedAt t'' = now"
    by simp_all
  from a show "db_file s'' = db_file s"
    unfolding Service_Edit_def by (rule Update_error_keeps_file)
qed

theorem failed_update_keeps_new_values_witness:
  "Service_Toggle noon_late noon_late sample_task failing_db =
     (Some ErrDriver, sample_task\<lparr>Done := True, UpdatedAt := noon_late, ClosedAt := Some noon_late\<rparr>,
      \<lparr>db_file = bootstrapped, faults = []\<rparr>) \<and>
   Service_Edit noon_late noon_late sample_task ''Buy oat milk'' ''2%'' PriorityHigh failing_db =
     (Some ErrDriver,
      sample_task\<lparr>Title := ''Buy oat milk'', Description := ''2%'', Priority := PriorityHigh,
                   UpdatedAt := noon_late\<rparr>,
      \<lparr>db_file = bootstrapped, faults = []\<rparr>) \<and>
   Done (sample_task\<lparr>Done := True, UpdatedAt := noon_late, ClosedAt := Some noon_late\<rparr>)
     \<noteq> Done sample_task \<and>
   Title (sample_task\<lparr>Title := ''Buy oat milk'', Description := ''2%'', Priority := PriorityHigh,
                   UpdatedAt := noon_late\<rparr>) = ''Buy oat milk''"
proof -
  have f: "faults failing_db = [True]" by (simp add: failing_db_def)
  have 1: "Service_Toggle noon_late noon_late sample_task failing_db =
     (Some ErrDriver, sample_task\<lparr>Done := True, UpdatedAt := noon_late, ClosedAt := Some noon_late\<rparr>,
      \<lparr>db_file = bootstrapped, faults = []\<rparr>)"
    unfolding Service_Toggle_def Update_failing [OF f]
    by (simp add: closed_rule_def sample_task_def failing_db_def)
  have 2: "Service_Edit noon_late noon_late sample_task ''Buy oat milk'' ''2%'' PriorityHigh failing_db =
     (Some ErrDriver,
      sample_task\<lparr>Title := ''Buy oat milk'', Description := ''2%'', Priority := PriorityHigh,
                   UpdatedAt := noon_late\<rparr>,
      \<lparr>db_file = bootstrapped, faults = []\<rparr>)"
    unfolding Service_Edit_def Update_failing [OF f]
    by (simp add: closed_rule_def sample_task_def failing_db_def)
  from failed_update_keeps_new_values [where now = noon_late and now' = noon_late
      and t = sample_task and s = failing_db and e = ErrDriver and e' = ErrDriver
      and t' = "sample_task\<lparr>Done := True, UpdatedAt := noon_late, ClosedAt := Some noon_late\<rparr>"
      and s' = "\<lparr>db_file = bootstrapped, faults = []\<rparr>"
      and title = "''Buy oat milk''" and description = "''2%''" and priority = PriorityHigh
      and t'' = "sample_task\<lparr>Title := ''Buy oat milk'', Description := ''2%'',
                   Priority := PriorityHigh, UpdatedAt := noon_late\<rparr>"
      and s'' = "\<lparr>db_file = bootstrapped, faults = []\<rparr>"]
  show ?thesis
    using 1 2 by simp
qed

lemma Update_ok_store:
  assumes "store_ok s"
  shows "store_ok (store_after (SQLiteStore_Update now t s))"
    and "fst (SQLiteStore_Update now t s) = None"
    and "row_of (db_file (store_after (SQLiteStore_Update now t s))) (ID t)
           = map_option (write_row (closed_rule now t)) (row_of (db_file s) (ID t))"
proof -
  from assms have a: "faults s = []" "tasks_ready (db_file s)" by (simp_all add: store_ok_def)
  from Update_ok [OF a, of now t] obtain d where
    d: "SQLiteStore_Update now t s = (None, closed_rule now t, s\<lparr>db_file := d\<rparr>)" "tasks_ready d"
      "row_of d (ID t) = map_option (write_row (closed_rule now t)) (row_of (db_file s) (ID t))"
    by blast
  show "store_ok (store_after (SQLiteStore_Update now t s))"
    using d(1,2) a(1) by (simp add: store_after_def store_ok_def)
  show "fst (SQLiteStore_Update now t s) = None"
    using d(1) by simp
  show "row_of (db_file (store_after (SQLiteStore_Update now t s))) (ID t)
           = map_option (write_row (closed_rule now t)) (row_of (db_file s) (ID t))"
    using d(1,3) by (simp add: store_after_def)
qed

lemma persisted_after_Update:
  assumes "store_ok s"
  shows "persisted_closed_at (store_after (SQLiteStore_Update now t s)) (ID t)
           = map_option (\<lambda>_. map_option time_format (ClosedAt (closed_rule now t)))
               (row_of (db_file s) (ID t))"
    and "persisted_done (store_after (SQLiteStore_Update now t s)) (ID t)
           = map_option (\<lambda>_. boolToInt (Done t)) (row_of (db_file s) (ID t))"
  by (simp_all add: persisted_closed_at_def persisted_done_def Update_ok_store(3) [OF assms]
      option.map_comp comp_def write_row_def)

lemma task_after_Update: "task_after (SQLiteStore_Update now t s) = closed_rule now t"
  by (simp add: task_after_def Update_task)

lemma row_of_after_Update_None:
  assumes "store_ok s"
  shows "row_of (db_file (store_after (SQLiteStore_Update now t s))) (ID t) = None
           \<longleftrightarrow> row_of (db_file s) (ID t) = None"
  by (simp add: Update_ok_store(3) [OF assms])

lemma task_after_Toggle:
  "task_after (Service_Toggle now now' t s) = closed_rule now' (t\<lparr>Done := \<not> Done t, UpdatedAt := now\<rparr>)"
  by (simp add: Service_Toggle_def task_after_Update)

lemma persisted_closed_at_Update:
  assumes "store_ok s" "row_of (db_file s) (ID t) \<noteq> None"
  shows "persisted_closed_at (store_after (SQLiteStore_Update now t s)) (ID t)
           = Some (map_option time_format (ClosedAt (closed_rule now t)))"
  using assms(2) by (auto simp add: persisted_after_Update(1) [OF assms(1)])

lemma has_closed_at_bootstrapped:
  "has_column ''closed_at'' \<lparr>columns = initial_columns @
          [\<lparr>col_name = ''closed_at'', col_type = TEXT, col_notnull = False, col_default = None,
            col_primary_key = False\<rparr>], rows = rs, seq = n\<rparr>"
  by (simp add: has_column_def)

lemma one_task_db_reached:
  "Service_Add noon_early ''Buy milk'' '''' PriorityMedium (snd (New fresh_db))
     = (Inr sample_task, one_task_db)"
  by (simp add: New_fresh_db Service_Add_def SQLiteStore_Create_def driver_call_def
      insert_task_def bootstrapped_def has_closed_at_bootstrapped next_rowid_def boolToInt_def
      example_times_format sample_task_def one_task_db_def PriorityMedium_def)

lemma one_task_db_ok:
  "store_ok one_task_db" "row_of (db_file one_task_db) (ID sample_task) \<noteq> None"
  by (simp_all add: store_ok_def one_task_db_def tasks_ready_def has_closed_at_bootstrapped
      row_of_def task_rows_def sample_task_def)

lemma sample_task_open: "\<not> Done sample_task" "ClosedAt sample_task = None"
  by (simp_all add: sample_task_def)

lemma parse_noon: "time_parse ''2024-05-01T12:00:00+03:00'' = Some noon"
  by (simp add: time_parse_def atoi_def is_digit_def digit_val_def parse_zone_def valid_time_def
      days_in_def is_leap_def noon_def)

lemma Toggle_ok:
  assumes "store_ok s" "row_of (db_file s) (ID t) \<noteq> None"
  shows "store_ok (store_after (Service_Toggle now now' t s))"
    and "row_of (db_file (store_after (Service_Toggle now now' t s))) (ID t) \<noteq> None"
    and "ID (task_after (Service_Toggle now now' t s)) = ID t"
    and "Done (task_after (Service_Toggle now now' t s)) = (\<not> Done t)"
    and "persisted_closed_at (store_after (Service_Toggle now now' t s)) (ID t)
           = Some (map_option time_format (ClosedAt (task_after (Service_Toggle now now' t s))))"
    and "persisted_done (store_after (Service_Toggle now now' t s)) (ID t)
           = Some (boolToInt (\<not> Done t))"
proof -
  define u where "u = t\<lparr>Done := \<not> Done t, UpdatedAt := now\<rparr>"
  have i: "ID u = ID t" "Done u = (\<not> Done t)"
    by (simp_all add: u_def)
  have e: "Service_Toggle now now' t s = SQLiteStore_Update now' u s"
    by (simp add: Service_Toggle_def u_def)
  have r: "row_of (db_file s) (ID u) \<noteq> None"
    using assms(2) i by simp
  show "store_ok (store_after (Service_Toggle now now' t s))"
    unfolding e by (rule Update_ok_store(1) [OF assms(1)])
  show "row_of (db_file (store_after (Service_Toggle now now' t s))) (ID t) \<noteq> None"
    unfolding e using Update_ok_store(3) [OF assms(1), of now' u] r i by simp
  show "ID (task_after (Service_Toggle now now' t s)) = ID t"
    unfolding e task_after_Update by (simp add: i)
  show "Done (task_after (Service_Toggle now now' t s)) = (\<not> Done t)"
    unfolding e task_after_Update by (simp add: i)
  show "persisted_closed_at (store_after (Service_Toggle now now' t s)) (ID t)
           = Some (map_option time_format (ClosedAt (task_after (Service_Toggle now now' t s))))"
    unfolding e task_after_Update using persisted_closed_at_Update [OF assms(1) r, of now'] i
    by simp
  show "persisted_done (store_after (Service_Toggle now now' t s)) (ID t)
           = Some (boolToInt (\<not> Done t))"
    unfolding e using persisted_after_Update(2) [OF assms(1), of now' u] r i by auto
qed

lemma toggles_persisted:
  assumes "store_ok s" "row_of (db_file s) (ID t) \<noteq> None"
  shows "persisted_closed_at (snd (toggles [(n1, m1)] t s)) (ID t)
           = Some (map_option time_format (ClosedAt (fst (toggles [(n1, m1)] t s))))"
    and "persisted_done (snd (toggles [(n1, m1)] t s)) (ID t) = Some (boolToInt (\<not> Done t))"
    and "persisted_closed_at (snd (toggles [(n1, m1), (n2, m2)] t s)) (ID t)
           = Some (map_option time_format (ClosedAt (fst (toggles [(n1, m1), (n2, m2)] t s))))"
    and "persisted_done (snd (toggles [(n1, m1), (n2, m2)] t s)) (ID t)
           = Some (boolToInt (Done t))"
    and "persisted_closed_at (snd (toggles [(n1, m1), (n2, m2), (n3, m3)] t s)) (ID t)
           = Some (map_option time_format
               (ClosedAt (fst (toggles [(n1, m1), (n2, m2), (n3, m3)] t s))))"
    and "persisted_done (snd (toggles [(n1, m1), (n2, m2), (n3, m3)] t s)) (ID t)
           = Some (boolToInt (\<not> Done t))"
proof -
  define ta where "ta = task_after (Service_Toggle n1 m1 t s)"
  define sa where "sa = store_after (Service_Toggle n1 m1 t s)"
  define tb where "tb = task_after (Service_Toggle n2 m2 ta sa)"
  define sb where "sb = store_after (Service_Toggle n2 m2 ta sa)"
  define tc where "tc = task_after (Service_Toggle n3 m3 tb sb)"
  define sc where "sc = store_after (Service_Toggle n3 m3 tb sb)"
  note a = Toggle_ok [OF assms, of n1 m1, folded ta_def sa_def]
  have ra: "row_of (db_file sa) (ID ta) \<noteq> None"
    using a(2,3) by simp
  note b = Toggle_ok [OF a(1) ra, of n2 m2, folded tb_def sb_def]
  have rb: "row_of (db_file sb) (ID tb) \<noteq> None"
    using b(2,3) by simp
  note c = Toggle_ok [OF b(1) rb, of n3 m3, folded tc_def sc_def]
  have t1: "toggles [(n1, m1)] t s = (ta, sa)"
    by (simp add: ta_def sa_def)
  have t2: "toggles [(n1, m1), (n2, m2)] t s = (tb, sb)"
    by (simp add: ta_def sa_def tb_def sb_def)
  have t3: "toggles [(n1, m1), (n2, m2), (n3, m3)] t s = (tc, sc)"
    by (simp add: ta_def sa_def tb_def sb_def tc_def sc_def)
  show "persisted_closed_at (snd (toggles [(n1, m1)] t s)) (ID t)
           = Some (map_option time_format (ClosedAt (fst (toggles [(n1, m1)] t s))))"
    unfolding t1 using a(5) by simp
  show "persisted_done (snd (toggles [(n1, m1)] t s)) (ID t) = Some (boolToInt (\<not> Done t))"
    unfolding t1 using a(6) by simp
  show "persisted_closed_at (snd (toggles [(n1, m1), (n2, m2)] t s)) (ID t)
           = Some (map_option time_format (ClosedAt (fst (toggles [(n1, m1), (n2, m2)] t s))))"
    unfolding t2 using b(5) a(3) by simp
  show "persisted_done (snd (toggles [(n1, m1), (n2, m2)] t s)) (ID t)
           = Some (boolToInt (Done t))"
    unfolding t2 using b(6) a(3) a(4) by simp
  show "persisted_closed_at (snd (toggles [(n1, m1), (n2, m2), (n3, m3)] t s)) (ID t)
           = Some (map_option time_format
               (ClosedAt (fst (toggles [(n1, m1), (n2, m2), (n3, m3)] t s))))"
    unfolding t3 using c(5) a(3) b(3) by simp
  show "persisted_done (snd (toggles [(n1, m1), (n2, m2), (n3, m3)] t s)) (ID t)
           = Some (boolToInt (\<not> Done t))"
    unfolding t3 using c(6) a(3) a(4) b(3) b(4) by simp
qed

lemma Toggle_one_task_db:
  "Service_Toggle noon_early noon_early sample_task one_task_db
     = (None, sample_task\<lparr>Done := True, ClosedAt := Some noon_early\<rparr>, completed_db)"
  by (simp add: Service_Toggle_def SQLiteStore_Update_def db_Exec_def driver_call_def
      update_task_def one_task_db_def completed_db_def has_closed_at_bootstrapped bootstrapped_def
      sample_task_def boolToInt_def example_times_format PriorityMedium_def)

lemma Toggle_completed_db:
  "Service_Toggle noon_early noon_late (sample_task\<lparr>Done := True, ClosedAt := Some noon_early\<rparr>)
       completed_db
     = (None, sample_task, one_task_db)"
  by (simp add: Service_Toggle_def SQLiteStore_Update_def db_Exec_def driver_call_def
      update_task_def one_task_db_def completed_db_def has_closed_at_bootstrapped bootstrapped_def
      sample_task_def boolToInt_def example_times_format PriorityMedium_def)

lemma Toggle_one_task_db_again:
  "Service_Toggle noon_late noon_late sample_task one_task_db
     = (None, sample_task\<lparr>Done := True, UpdatedAt := noon_late, ClosedAt := Some noon_late\<rparr>,
        completed_db)"
  by (simp add: Service_Toggle_def SQLiteStore_Update_def db_Exec_def driver_call_def
      update_task_def one_task_db_def completed_db_def has_closed_at_bootstrapped bootstrapped_def
      sample_task_def boolToInt_def example_times_format PriorityMedium_def)

lemma All_completed_db:
  "fst (Service_All completed_db)
     = Inr [sample_task\<lparr>Done := True, CreatedAt := noon, UpdatedAt := noon, ClosedAt := Some noon\<rparr>]"
  by (simp add: Service_All_def SQLiteStore_List_def driver_call_def completed_db_def
      select_tasks_def has_closed_at_bootstrapped bootstrapped_def scan_task_def
      parse_or_zero_def parse_noon sample_task_def PriorityMedium_def)

text \<open>C2 (as stated, refuted): a task is completed, un-completed and completed again, the
  second completion eight tenths of a second after the first. The store after the second
  completion is the store after the first one: the same text stands in \<open>closed_at\<close>, and
  \<open>All\<close> gives the task the same closed timestamp as after the first completion.\<close>

theorem second_completion_same_closed_at:
  "noon_early \<noteq> noon_late \<and>
   toggles [(noon_early, noon_early)] sample_task one_task_db
     = (sample_task\<lparr>Done := True, ClosedAt := Some noon_early\<rparr>, completed_db) \<and>
   toggles [(noon_early, noon_early), (noon_early, noon_late)] sample_task one_task_db
     = (sample_task, one_task_db) \<and>
   toggles [(noon_early, noon_early), (noon_early, noon_late), (noon_late, noon_late)]
       sample_task one_task_db
     = (sample_task\<lparr>Done := True, UpdatedAt := noon_late, ClosedAt := Some noon_late\<rparr>,
        completed_db) \<and>
   persisted_closed_at one_task_db (ID sample_task) = Some None \<and>
   persisted_closed_at completed_db (ID sample_task) = Some (Some ''2024-05-01T12:00:00+03:00'') \<and>
   fst (Service_All completed_db)
     = Inr [sample_task\<lparr>Done := True, CreatedAt := noon, UpdatedAt := noon, ClosedAt := Some noon\<rparr>]"
proof -
  have d: "noon_early \<noteq> noon_late" by (simp add: example_times)
  have p: "persisted_closed_at one_task_db (ID sample_task) = Some None"
    "persisted_closed_at completed_db (ID sample_task) = Some (Some ''2024-05-01T12:00:00+03:00'')"
    by (simp_all add: persisted_closed_at_def row_of_def task_rows_def one_task_db_def
        completed_db_def sample_task_def)
  show ?thesis
    using d p All_completed_db
    by (simp add: Toggle_one_task_db Toggle_completed_db Toggle_one_task_db_again task_after_def
        store_after_def)
qed

text \<open>C2 (amended): toggling twice restores \<open>Done\<close>, on the task object and in its row. A
  toggle that completes a task without a closed timestamp sets \<open>ClosedAt\<close> on the task
  object to the clock reading \<open>Update\<close> takes, and stores its text in \<open>closed_at\<close>; \<open>Update\<close> of
  a task that is not done clears \<open>ClosedAt\<close> and stores \<open>NULL\<close> whatever the timestamp was;
  \<open>Update\<close> of a done task that has a closed timestamp keeps it. After completing,
  un-completing and completing again, \<open>ClosedAt\<close> of the task object is the clock reading of
  the second completion, which differs from the one of the first completion exactly when
  the two readings differ, and \<open>closed_at\<close> holds the text of that reading, which has no
  fraction of a second.\<close>

theorem toggle_closed_timestamp:
  "Done (fst (toggles [(n1, m1), (n2, m2)] t s)) = Done t \<and>
   (store_ok s \<and> row_of (db_file s) (ID t) \<noteq> None \<longrightarrow>
      persisted_done (snd (toggles [(n1, m1)] t s)) (ID t) = Some (boolToInt (\<not> Done t)) \<and>
      persisted_done (snd (toggles [(n1, m1), (n2, m2)] t s)) (ID t) = Some (boolToInt (Done t))) \<and>
   (\<not> Done t \<and> ClosedAt t = None \<longrightarrow>
      ClosedAt (task_after (Service_Toggle n1 m1 t s)) = Some m1 \<and>
      (store_ok s \<and> row_of (db_file s) (ID t) \<noteq> None \<longrightarrow>
         persisted_closed_at (store_after (Service_Toggle n1 m1 t s)) (ID t)
           = Some (Some (time_format m1)))) \<and>
   (\<not> Done t \<longrightarrow>
      ClosedAt (task_after (SQLiteStore_Update m1 t s)) = None \<and>
      (store_ok s \<and> row_of (db_file s) (ID t) \<noteq> None \<longrightarrow>
         persisted_closed_at (store_after (SQLiteStore_Update m1 t s)) (ID t) = Some None)) \<and>
   (Done t \<and> ClosedAt t = Some c \<longrightarrow>
      ClosedAt (task_after (SQLiteStore_Update m1 t s)) = Some c \<and>
      (store_ok s \<and> row_of (db_file s) (ID t) \<noteq> None \<longrightarrow>
         persisted_closed_at (store_after (SQLiteStore_Update m1 t s)) (ID t)
           = Some (Some (time_format c)))) \<and>
   (\<not> Done t \<and> ClosedAt t = None \<longrightarrow>
      ClosedAt (fst (toggles [(n1, m1)] t s)) = Some m1 \<and>
      ClosedAt (fst (toggles [(n1, m1), (n2, m2)] t s)) = None \<and>
      ClosedAt (fst (toggles [(n1, m1), (n2, m2), (n3, m3)] t s)) = Some m3 \<and>
      ((ClosedAt (fst (toggles [(n1, m1), (n2, m2), (n3, m3)] t s))
          \<noteq> ClosedAt (fst (toggles [(n1, m1)] t s))) = (m3 \<noteq> m1)) \<and>
      (store_ok s \<and> row_of (db_file s) (ID t) \<noteq> None \<longrightarrow>
         persisted_closed_at (snd (toggles [(n1, m1)] t s)) (ID t) = Some (Some (time_format m1)) \<and>
         persisted_closed_at (snd (toggles [(n1, m1), (n2, m2)] t s)) (ID t) = Some None \<and>
         persisted_closed_at (snd (toggles [(n1, m1), (n2, m2), (n3, m3)] t s)) (ID t)
           = Some (Some (time_format m3))))"
proof (intro conjI impI)
  show "Done (fst (toggles [(n1, m1), (n2, m2)] t s)) = Done t"
    by (simp add: task_after_Toggle)
next
  assume a: "store_ok s \<and> row_of (db_file s) (ID t) \<noteq> None"
  note p = toggles_persisted [OF conjunct1 [OF a] conjunct2 [OF a]]
  show "persisted_done (snd (toggles [(n1, m1)] t s)) (ID t) = Some (boolToInt (\<not> Done t))"
    by (rule p(2))
  show "persisted_done (snd (toggles [(n1, m1), (n2, m2)] t s)) (ID t) = Some (boolToInt (Done t))"
    by (rule p(4))
next
  assume a: "\<not> Done t \<and> ClosedAt t = None"
  then show "ClosedAt (task_after (Service_Toggle n1 m1 t s)) = Some m1"
    by (simp add: task_after_Toggle closed_rule_ClosedAt)
  from a show c1: "ClosedAt (fst (toggles [(n1, m1)] t s)) = Some m1"
    by (simp add: task_after_Toggle closed_rule_ClosedAt)
  from a show c2: "ClosedAt (fst (toggles [(n1, m1), (n2, m2)] t s)) = None"
    by (simp add: task_after_Toggle closed_rule_ClosedAt)
  from a show c3: "ClosedAt (fst (toggles [(n1, m1), (n2, m2), (n3, m3)] t s)) = Some m3"
    by (simp add: task_after_Toggle closed_rule_ClosedAt)
  show "(ClosedAt (fst (toggles [(n1, m1), (n2, m2), (n3, m3)] t s))
          \<noteq> ClosedAt (fst (toggles [(n1, m1)] t s))) = (m3 \<noteq> m1)"
    unfolding c1 c3 by simp
  {
    assume b: "store_ok s \<and> row_of (db_file s) (ID t) \<noteq> None"
    note p = toggles_persisted [OF conjunct1 [OF b] conjunct2 [OF b]]
    show "persisted_closed_at (store_after (Service_Toggle n1 m1 t s)) (ID t)
           = Some (Some (time_format m1))"
      using p(1) [of n1 m1] c1 by simp
    show "persisted_closed_at (snd (toggles [(n1, m1)] t s)) (ID t) = Some (Some (time_format m1))"
      using p(1) [of n1 m1] c1 by simp
    show "persisted_closed_at (snd (toggles [(n1, m1), (n2, m2)] t s)) (ID t) = Some None"
      using p(3) [of n1 m1 n2 m2] c2 by simp
    show "persisted_closed_at (snd (toggles [(n1, m1), (n2, m2), (n3, m3)] t s)) (ID t)
           = Some (Some (time_format m3))"
      using p(5) [of n1 m1 n2 m2 n3 m3] c3 by simp
  }
next
  assume a: "\<not> Done t"
  then show "ClosedAt (task_after (SQLiteStore_Update m1 t s)) = None"
    by (simp add: task_after_Update closed_rule_ClosedAt)
  assume "store_ok s \<and> row_of (db_file s) (ID t) \<noteq> None"
  with a show "persisted_closed_at (store_after (SQLiteStore_Update m1 t s)) (ID t) = Some None"
    by (simp add: persisted_closed_at_Update closed_rule_ClosedAt)
next
  assume a: "Done t \<and> ClosedAt t = Some c"
  then show "ClosedAt (task_after (SQLiteStore_Update m1 t s)) = Some c"
    by (simp add: task_after_Update closed_rule_ClosedAt)
  assume "store_ok s \<and> row_of (db_file s) (ID t) \<noteq> None"
  with a show "persisted_closed_at (store_after (SQLiteStore_Update m1 t s)) (ID t)
           = Some (Some (time_format c))"
    by (simp add: persisted_closed_at_Update closed_rule_ClosedAt)
qed

theorem toggle_closed_timestamp_witness:
  "\<not> Done sample_task \<and> ClosedAt sample_task = None \<and> store_ok one_task_db \<and>
   row_of (db_file one_task_db) (ID sample_task) \<noteq> None \<and>
   ClosedAt (task_after (Service_Toggle noon_early noon_late sample_task one_task_db))
     = Some noon_late \<and>
   persisted_closed_at (store_after (Service_Toggle noon_early noon_late sample_task one_task_db))
       (ID sample_task) = Some (Some ''2024-05-01T12:00:00+03:00'') \<and>
   persisted_done (snd (toggles [(noon_early, noon_late)] sample_task one_task_db))
       (ID sample_task) = Some 1 \<and>
   persisted_done (snd (toggles [(noon_early, noon_late), (noon_late, noon_late)]
       sample_task one_task_db)) (ID sample_task) = Some 0 \<and>
   ClosedAt (fst (toggles [(noon_early, noon_late), (noon_late, noon_late),
       (before_shift, before_shift)] sample_task one_task_db)) = Some before_shift \<and>
   ClosedAt (fst (toggles [(noon_early, noon_late), (noon_late, noon_late),
       (before_shift, before_shift)] sample_task one_task_db))
     \<noteq> ClosedAt (fst (toggles [(noon_early, noon_late)] sample_task one_task_db)) \<and>
   persisted_closed_at (snd (toggles [(noon_early, noon_late), (noon_late, noon_late),
       (before_shift, before_shift)] sample_task one_task_db)) (ID sample_task)
     = Some (Some ''2024-10-27T03:30:00+03:00'')"
proof -
  have d: "before_shift \<noteq> noon_late"
    by (simp add: example_times)
  from toggle_closed_timestamp [of noon_early noon_late noon_late noon_late sample_task
      one_task_db _ before_shift before_shift]
  show ?thesis
    using sample_task_open one_task_db_ok d
    by (simp add: example_times_format boolToInt_def del: toggles.simps)
qed

section \<open>What \<open>Edit\<close> leaves alone\<close>

lemma New_legacy_db: "New legacy_db = (None, legacy_db_migrated)"
  by (simp add: New_def db_Exec_def driver_call_def legacy_db_def
      initialSchema_def migrate_def migrate_list_def select_version_def migrations_def
      migrate_loop.simps [of _ 0] migrate_loop.simps [of _ 1] db_Begin_def tx_Exec_def
      tx_Commit_def update_version_def has_column_def initial_columns_def value_when_omitted_def
      legacy_db_migrated_def default_text_def)

lemma All_legacy_db_migrated: "fst (Service_All legacy_db_migrated) = Inr [legacy_task]"
  by (simp add: Service_All_def SQLiteStore_List_def driver_call_def legacy_db_migrated_def
      select_tasks_def has_closed_at_bootstrapped scan_task_def parse_or_zero_def parse_noon
      legacy_task_def PriorityMedium_def)

lemma legacy_db_migrated_ok:
  "store_ok legacy_db_migrated" "row_of (db_file legacy_db_migrated) 1 \<noteq> None"
  "persisted_closed_at legacy_db_migrated 1 = Some None"
  by (simp_all add: store_ok_def legacy_db_migrated_def tasks_ready_def has_closed_at_bootstrapped
      row_of_def task_rows_def persisted_closed_at_def)

lemma task_after_Edit:
  "task_after (Service_Edit now now' t title description priority s) =
     closed_rule now' (t\<lparr>Title := title, Description := description, Priority := priority,
                        UpdatedAt := now\<rparr>)"
  by (simp add: Service_Edit_def task_after_Update)

text \<open>C8 (as stated, refuted): a task completed under the earlier version of the store is
  listed, after the migration, as done and without a closed timestamp; \<open>Edit\<close> on it sets
  \<open>ClosedAt\<close> on the task object and \<open>closed_at\<close> in its row.\<close>

theorem edit_changes_closed_at:
  "New legacy_db = (None, legacy_db_migrated) \<and>
   fst (Service_All legacy_db_migrated) = Inr [legacy_task] \<and>
   ClosedAt legacy_task = None \<and>
   ClosedAt (task_after (Service_Edit noon_late noon_late legacy_task ''Buy oat milk'' ''2%''
       PriorityHigh legacy_db_migrated)) = Some noon_late \<and>
   persisted_closed_at legacy_db_migrated (ID legacy_task) = Some None \<and>
   persisted_closed_at (store_after (Service_Edit noon_late noon_late legacy_task
       ''Buy oat milk'' ''2%'' PriorityHigh legacy_db_migrated)) (ID legacy_task)
     = Some (Some ''2024-05-01T12:00:00+03:00'')"
proof -
  have i: "ID legacy_task = 1" "Done legacy_task" "ClosedAt legacy_task = None"
    by (simp_all add: legacy_task_def)
  have "persisted_closed_at (store_after (SQLiteStore_Update noon_late
          (legacy_task\<lparr>Title := ''Buy oat milk'', Description := ''2%'', Priority := PriorityHigh,
                         UpdatedAt := noon_late\<rparr>) legacy_db_migrated))
          (ID (legacy_task\<lparr>Title := ''Buy oat milk'', Description := ''2%'',
                         Priority := PriorityHigh, UpdatedAt := noon_late\<rparr>))
        = Some (map_option time_format (ClosedAt (closed_rule noon_late
            (legacy_task\<lparr>Title := ''Buy oat milk'', Description := ''2%'', Priority := PriorityHigh,
                         UpdatedAt := noon_late\<rparr>))))"
    by (rule persisted_closed_at_Update) (simp_all add: legacy_db_migrated_ok i)
  then have p: "persisted_closed_at (store_after (Service_Edit noon_late noon_late legacy_task
       ''Buy oat milk'' ''2%'' PriorityHigh legacy_db_migrated)) (ID legacy_task)
     = Some (Some ''2024-05-01T12:00:00+03:00'')"
    by (simp add: closed_rule_ClosedAt i Service_Edit_def example_times_format)
  have m: "ClosedAt (task_after (Service_Edit noon_late noon_late legacy_task ''Buy oat milk'' ''2%''
       PriorityHigh legacy_db_migrated)) = Some noon_late"
    by (simp add: task_after_Edit closed_rule_ClosedAt i)
  show ?thesis
    using p m by (simp add: New_legacy_db All_legacy_db_migrated i legacy_db_migrated_ok)
qed

lemma row_after_Edit:
  assumes "store_ok s" "row_of (db_file s) (ID t) = Some r"
  shows "row_of (db_file (store_after (Service_Edit now now' t title description priority s))) (ID t)
     = Some (write_row (closed_rule now' (t\<lparr>Title := title, Description := description,
          Priority := priority, UpdatedAt := now\<rparr>)) r)"
  using Update_ok_store(3) [OF assms(1), of now' "t\<lparr>Title := title, Description := description,
          Priority := priority, UpdatedAt := now\<rparr>"] assms(2)
  by (simp add: Service_Edit_def)

text \<open>C8 (amended): \<open>Edit\<close> leaves \<open>ID\<close>, \<open>CreatedAt\<close> and \<open>Done\<close> of the task object as they
  were, and \<open>ClosedAt\<close> too when the task has a closed timestamp exactly when it is done. In the
  row of the task, \<open>id\<close> and \<open>created_at\<close> stay as they were; \<open>done\<close> and \<open>closed_at\<close> stay as they
  were when the row held the values of the task object and, again, the task has a closed
  timestamp exactly when it is done.\<close>

theorem edit_frame:
  "(let res = Service_Edit now now' t title description priority s in
     ID (task_after res) = ID t \<and> CreatedAt (task_after res) = CreatedAt t \<and>
     Done (task_after res) = Done t \<and>
     ((Done t \<longleftrightarrow> ClosedAt t \<noteq> None) \<longrightarrow> ClosedAt (task_after res) = ClosedAt t) \<and>
     (store_ok s \<and> row_of (db_file s) (ID t) = Some r \<longrightarrow>
        map_option r_id (row_of (db_file (store_after res)) (ID t)) = Some (r_id r) \<and>
        map_option r_created_at (row_of (db_file (store_after res)) (ID t)) = Some (r_created_at r) \<and>
        (r_done r = boolToInt (Done t) \<longrightarrow>
           persisted_done (store_after res) (ID t) = Some (r_done r)) \<and>
        ((Done t \<longleftrightarrow> ClosedAt t \<noteq> None) \<and> r_closed_at r = map_option time_format (ClosedAt t) \<longrightarrow>
           persisted_closed_at (store_after res) (ID t) = Some (r_closed_at r))))"
proof -
  have c: "ClosedAt (closed_rule now' u) = ClosedAt u" if "Done u \<longleftrightarrow> ClosedAt u \<noteq> None" for u
    using that by (auto simp add: closed_rule_ClosedAt)
  show ?thesis
    unfolding Let_def
  proof (intro conjI impI)
    assume a: "Done t \<longleftrightarrow> ClosedAt t \<noteq> None"
    show "ClosedAt (task_after (Service_Edit now now' t title description priority s)) = ClosedAt t"
      unfolding task_after_Edit using a by (subst c) simp_all
  next
    assume a: "store_ok s \<and> row_of (db_file s) (ID t) = Some r"
    note r = row_after_Edit [OF conjunct1 [OF a] conjunct2 [OF a], of now now' title description priority]
    show "map_option r_id (row_of (db_file (store_after
        (Service_Edit now now' t title description priority s))) (ID t)) = Some (r_id r)"
      by (simp add: r write_row_def)
    show "map_option r_created_at (row_of (db_file (store_after
        (Service_Edit now now' t title description priority s))) (ID t)) = Some (r_created_at r)"
      by (simp add: r write_row_def)
    {
      assume "r_done r = boolToInt (Done t)"
      then show "persisted_done (store_after (Service_Edit now now' t title description priority s))
          (ID t) = Some (r_done r)"
        by (simp add: persisted_done_def r write_row_def)
    }
    {
      assume b: "(Done t \<longleftrightarrow> ClosedAt t \<noteq> None) \<and> r_closed_at r = map_option time_format (ClosedAt t)"
      then have "ClosedAt (closed_rule now' (t\<lparr>Title := title, Description := description,
          Priority := priority, UpdatedAt := now\<rparr>)) = ClosedAt t"
        by (subst c) simp_all
      with b show "persisted_closed_at (store_after
          (Service_Edit now now' t title description priority s)) (ID t) = Some (r_closed_at r)"
        by (simp add: persisted_closed_at_def r write_row_def)
    }
  qed (simp_all add: task_after_Edit)
qed

lemma sample_row_of: "row_of (db_file one_task_db) (ID sample_task) = Some sample_row"
  by (simp add: one_task_db_def row_of_def task_rows_def sample_task_def sample_row_def)

theorem edit_frame_witness:
  "store_ok one_task_db \<and> row_of (db_file one_task_db) (ID sample_task) = Some sample_row \<and>
   (Done sample_task \<longleftrightarrow> ClosedAt sample_task \<noteq> None) \<and>
   r_done sample_row = boolToInt (Done sample_task) \<and>
   r_closed_at sample_row = map_option time_format (ClosedAt sample_task) \<and>
   ClosedAt (task_after (Service_Edit noon_late noon_late sample_task ''Buy oat milk'' ''2%''
       PriorityHigh one_task_db)) = ClosedAt sample_task \<and>
   persisted_done (store_after (Service_Edit noon_late noon_late sample_task ''Buy oat milk''
       ''2%'' PriorityHigh one_task_db)) (ID sample_task) = Some 0 \<and>
   persisted_closed_at (store_after (Service_Edit noon_late noon_late sample_task ''Buy oat milk''
       ''2%'' PriorityHigh one_task_db)) (ID sample_task) = Some None"
proof -
  have h: "(Done sample_task \<longleftrightarrow> ClosedAt sample_task \<noteq> None)"
    "r_done sample_row = boolToInt (Done sample_task)"
    "r_closed_at sample_row = map_option time_format (ClosedAt sample_task)"
    "r_done sample_row = 0" "r_closed_at sample_row = None"
    by (simp_all add: sample_task_def sample_row_def boolToInt_def)
  from edit_frame [of noon_late noon_late sample_task "''Buy oat milk''" "''2%''" PriorityHigh
      one_task_db sample_row]
  show ?thesis
    using one_task_db_ok(1) sample_row_of h by (simp add: Let_def)
qed

section \<open>\<open>Create\<close>, \<open>Add\<close> and the title\<close>

lemma fold_max_ge_init: "(a::int) \<le> fold max xs a"
proof (induction xs arbitrary: a)
  case Nil
  show ?case by simp
next
  case (Cons y ys)
  have "a \<le> max y a" by simp
  also have "\<dots> \<le> fold max ys (max y a)" by (rule Cons.IH)
  finally show ?case by simp
qed

lemma fold_max_ge: "(x::int) \<in> set xs \<Longrightarrow> x \<le> fold max xs a"
proof (induction xs arbitrary: a)
  case Nil
  then show ?case by simp
next
  case (Cons y ys)
  show ?case
  proof (cases "x = y")
    case True
    have "x \<le> max y a" using True by simp
    also have "\<dots> \<le> fold max ys (max y a)" by (rule fold_max_ge_init)
    finally show ?thesis by simp
  next
    case False
    with Cons.prems have "x \<in> set ys" by simp
    then show ?thesis using Cons.IH by simp
  qed
qed

lemma next_rowid_fresh: "r \<in> set (rows tb) \<Longrightarrow> r_id r < next_rowid tb"
  using fold_max_ge [of "r_id r" "map r_id (rows tb)" "seq tb"] by (simp add: next_rowid_def)

lemma find_append_new:
  assumes "\<And>r. r \<in> set xs \<Longrightarrow> \<not> P r" "P x"
  shows "find P (xs @ [x]) = Some x"
  using assms by (induction xs) simp_all

lemma Create_ok:
  assumes "store_ok s"
  shows "\<exists>n d. SQLiteStore_Create t s = (None, t\<lparr>ID := n\<rparr>, s\<lparr>db_file := d\<rparr>) \<and>
           store_ok (s\<lparr>db_file := d\<rparr>) \<and>
           task_rows d = task_rows (db_file s) @ [new_row n t] \<and>
           row_of d n = Some (new_row n t)"
proof -
  from assms obtain tb where tb: "tasks (db_file s) = Some tb" "has_column ''closed_at'' tb"
    and f: "faults s = []"
    by (auto simp add: store_ok_def tasks_ready_def split: option.splits)
  define n where "n = next_rowid tb"
  define d where "d = (db_file s)\<lparr>tasks := Some (tb\<lparr>rows := rows tb @ [new_row n t], seq := n\<rparr>)\<rparr>"
  have "SQLiteStore_Create t s = (None, t\<lparr>ID := n\<rparr>, s\<lparr>db_file := d\<rparr>)"
    using tb f
    by (simp add: SQLiteStore_Create_def driver_call_def insert_task_def Let_def n_def d_def
        new_row_def)
  moreover have "store_ok (s\<lparr>db_file := d\<rparr>)"
    using tb f by (simp add: store_ok_def tasks_ready_def d_def has_column_def)
  moreover have "task_rows d = task_rows (db_file s) @ [new_row n t]"
    using tb by (simp add: task_rows_def d_def)
  moreover have "row_of d n = Some (new_row n t)"
  proof -
    have "find (\<lambda>r. r_id r = n) (rows tb @ [new_row n t]) = Some (new_row n t)"
    proof (rule find_append_new)
      fix r assume "r \<in> set (rows tb)"
      then show "r_id r \<noteq> n"
        using next_rowid_fresh [of r tb] by (simp add: n_def)
    qed (simp add: new_row_def)
    then show ?thesis
      using tb by (simp add: row_of_def task_rows_def d_def)
  qed
  ultimately show ?thesis by blast
qed

lemma Add_ok:
  assumes "store_ok s"
  shows "\<exists>n s'. Service_Add now title description priority s =
             (Inr \<lparr>ID = n, Title = title, Description = description, Done = False,
                   Priority = priority, CreatedAt = now, UpdatedAt = now, ClosedAt = None\<rparr>, s') \<and>
           store_ok s' \<and>
           row_of (db_file s') n =
             Some \<lparr>r_id = n, r_title = title, r_description = description, r_done = 0,
                   r_priority = priority, r_created_at = time_format now,
                   r_updated_at = time_format now, r_closed_at = None\<rparr>"
proof -
  define t where "t = \<lparr>ID = 0, Title = title, Description = description, Done = False,
               Priority = priority, CreatedAt = now, UpdatedAt = now, ClosedAt = None\<rparr>"
  from Create_ok [OF assms, of t] obtain n d where
    c: "SQLiteStore_Create t s = (None, t\<lparr>ID := n\<rparr>, s\<lparr>db_file := d\<rparr>)"
      "store_ok (s\<lparr>db_file := d\<rparr>)" "row_of d n = Some (new_row n t)"
    by blast
  have "Service_Add now title description priority s = (Inr (t\<lparr>ID := n\<rparr>), s\<lparr>db_file := d\<rparr>)"
    using c(1) by (simp add: Service_Add_def t_def [symmetric] Let_def)
  then show ?thesis
    using c(2,3) by (simp add: t_def new_row_def boolToInt_def)
qed

lemma New_fresh_db_ok: "store_ok (snd (New fresh_db))"
  by (simp add: New_fresh_db store_ok_def tasks_ready_def bootstrapped_def has_closed_at_bootstrapped)

text \<open>C6 (as stated, refuted): on a newly opened store, \<open>Add\<close> with an empty title returns a
  task and inserts its row, and \<open>Edit\<close> to an empty title succeeds and writes the empty
  title into the row.\<close>

theorem service_accepts_empty_title:
  "Service_Add noon '''' ''2%'' PriorityMedium (snd (New fresh_db)) =
     (Inr \<lparr>ID = 1, Title = '''', Description = ''2%'', Done = False, Priority = PriorityMedium,
           CreatedAt = noon, UpdatedAt = noon, ClosedAt = None\<rparr>,
      \<lparr>db_file = bootstrapped\<lparr>tasks := Some \<lparr>columns = initial_columns @
          [\<lparr>col_name = ''closed_at'', col_type = TEXT, col_notnull = False, col_default = None,
            col_primary_key = False\<rparr>],
          rows = [\<lparr>r_id = 1, r_title = '''', r_description = ''2%'', r_done = 0,
                   r_priority = 2, r_created_at = ''2024-05-01T12:00:00+03:00'',
                   r_updated_at = ''2024-05-01T12:00:00+03:00'', r_closed_at = None\<rparr>],
          seq = 1\<rparr>\<rparr>,
       faults = []\<rparr>) \<and>
   fst (Service_Edit noon noon sample_task '''' '''' PriorityLow one_task_db) = None \<and>
   Title (task_after (Service_Edit noon noon sample_task '''' '''' PriorityLow one_task_db)) = '''' \<and>
   map_option r_title (row_of (db_file (store_after
       (Service_Edit noon noon sample_task '''' '''' PriorityLow one_task_db))) (ID sample_task))
     = Some ''''"
proof -
  have f: "time_format noon = ''2024-05-01T12:00:00+03:00''"
    by (simp add: noon_def time_format_def appendInt_def digits_of.simps digit_char_def
        format_zone_def char_of_def bit_simps)
  have 1: "Service_Add noon '''' ''2%'' PriorityMedium (snd (New fresh_db)) =
     (Inr \<lparr>ID = 1, Title = '''', Description = ''2%'', Done = False, Priority = PriorityMedium,
           CreatedAt = noon, UpdatedAt = noon, ClosedAt = None\<rparr>,
      \<lparr>db_file = bootstrapped\<lparr>tasks := Some \<lparr>columns = initial_columns @
          [\<lparr>col_name = ''closed_at'', col_type = TEXT, col_notnull = False, col_default = None,
            col_primary_key = False\<rparr>],
          rows = [\<lparr>r_id = 1, r_title = '''', r_description = ''2%'', r_done = 0,
                   r_priority = 2, r_created_at = ''2024-05-01T12:00:00+03:00'',
                   r_updated_at = ''2024-05-01T12:00:00+03:00'', r_closed_at = None\<rparr>],
          seq = 1\<rparr>\<rparr>,
       faults = []\<rparr>)"
    by (simp add: New_fresh_db Service_Add_def SQLiteStore_Create_def driver_call_def
        insert_task_def bootstrapped_def has_closed_at_bootstrapped next_rowid_def boolToInt_def
        f PriorityMedium_def)
  have 2: "fst (Service_Edit noon noon sample_task '''' '''' PriorityLow one_task_db) = None"
    unfolding Service_Edit_def by (rule Update_ok_store(2) [OF one_task_db_ok(1)])
  have 3: "Title (task_after (Service_Edit noon noon sample_task '''' '''' PriorityLow one_task_db)) = ''''"
    by (simp add: task_after_Edit)
  have 4: "map_option r_title (row_of (db_file (store_after
       (Service_Edit noon noon sample_task '''' '''' PriorityLow one_task_db))) (ID sample_task))
     = Some ''''"
    by (simp add: row_after_Edit [OF one_task_db_ok(1) sample_row_of] write_row_def)
  show ?thesis
    using 1 2 3 4 by blast
qed

text \<open>C6 (amended): the service does not check the title. It is the task form of the front
  end that refuses an empty title: it reports \<open>title cannot be empty\<close> and calls neither \<open>Add\<close>
  nor \<open>Edit\<close>, so the store and the task are as before. Called with an empty title on a
  working store, \<open>Add\<close> returns a task with the empty title and inserts its row, and \<open>Edit\<close>
  of a task that has a row returns no error, sets the empty title on the task object and
  writes it into the row.\<close>

theorem empty_title_refused_by_form_only:
  "submitTaskForm now now' True existing '''' descText selected s
     = (Some (ErrMessage ''title cannot be empty''), existing, s) \<and>
   (store_ok s \<longrightarrow>
      (\<exists>t s'. Service_Add now '''' description priority s = (Inr t, s') \<and> Title t = '''' \<and>
         map_option r_title (row_of (db_file s') (ID t)) = Some '''')) \<and>
   (store_ok s \<and> row_of (db_file s) (ID t) = Some r \<longrightarrow>
      fst (Service_Edit now now' t '''' description priority s) = None \<and>
      Title (task_after (Service_Edit now now' t '''' description priority s)) = '''' \<and>
      map_option r_title (row_of (db_file (store_after
          (Service_Edit now now' t '''' description priority s))) (ID t)) = Some '''')"
proof (intro conjI impI)
  show "submitTaskForm now now' True existing '''' descText selected s
     = (Some (ErrMessage ''title cannot be empty''), existing, s)"
    by (simp add: submitTaskForm_def)
next
  assume "store_ok s"
  from Add_ok [OF this, of now "''''" description priority]
  show "\<exists>t s'. Service_Add now '''' description priority s = (Inr t, s') \<and> Title t = '''' \<and>
         map_option r_title (row_of (db_file s') (ID t)) = Some ''''"
    by auto
next
  assume a: "store_ok s \<and> row_of (db_file s) (ID t) = Some r"
  show "fst (Service_Edit now now' t '''' description priority s) = None"
    unfolding Service_Edit_def by (rule Update_ok_store(2) [OF conjunct1 [OF a]])
  show "Title (task_after (Service_Edit now now' t '''' description priority s)) = ''''"
    by (simp add: task_after_Edit)
  show "map_option r_title (row_of (db_file (store_after
          (Service_Edit now now' t '''' description priority s))) (ID t)) = Some ''''"
    by (simp add: row_after_Edit [OF conjunct1 [OF a] conjunct2 [OF a]] write_row_def)
qed

theorem empty_title_refused_by_form_only_witness:
  "store_ok one_task_db \<and> row_of (db_file one_task_db) (ID sample_task) = Some sample_row \<and>
   submitTaskForm noon noon True (Some sample_task) '''' ''2%'' ''High'' one_task_db
     = (Some (ErrMessage ''title cannot be empty''), Some sample_task, one_task_db) \<and>
   (\<exists>t s'. Service_Add noon '''' ''2%'' PriorityHigh one_task_db = (Inr t, s') \<and> Title t = '''' \<and>
      map_option r_title (row_of (db_file s') (ID t)) = Some '''') \<and>
   fst (Service_Edit noon noon sample_task '''' ''2%'' PriorityHigh one_task_db) = None \<and>
   map_option r_title (row_of (db_file (store_after
       (Service_Edit noon noon sample_task '''' ''2%'' PriorityHigh one_task_db))) (ID sample_task))
     = Some ''''"
  using empty_title_refused_by_form_only [of noon noon "Some sample_task" "''2%''" "''High''"
      one_task_db "''2%''" PriorityHigh sample_task sample_row]
    one_task_db_ok(1) sample_row_of
  by simp

section \<open>Migrations\<close>

lemma driver_ops_no_faults:
  assumes "faults s = []"
  shows "db_Begin s = (Inr (db_file s), s)"
    and "tx_Exec f w s = (f w, s)"
    and "tx_Commit w s = (None, s\<lparr>db_file := w\<rparr>)"
  using assms by (simp_all add: db_Begin_def tx_Exec_def tx_Commit_def driver_call_def)

lemma drop_step:
  assumes "0 \<le> i" "i < int (length ms)"
  shows "drop (nat i) ms = ms ! nat i # drop (nat (i + 1)) ms"
proof -
  have "nat i < length ms" using assms by simp
  then have "drop (nat i) ms = ms ! nat i # drop (Suc (nat i)) ms"
    by (simp add: Cons_nth_drop_Suc)
  moreover have "Suc (nat i) = nat (i + 1)" using assms(1) by simp
  ultimately show ?thesis by simp
qed

lemma migrate_loop_refines:
  assumes "faults s = []" "0 \<le> i"
  shows "migrate_loop ms i s =
           (case apply_pending (drop (nat i) ms) i (db_file s) of (r, d) \<Rightarrow> (r, s\<lparr>db_file := d\<rparr>))"
  using assms
proof (induction "nat (int (length ms) - i)" arbitrary: i s)
  case 0
  then have "\<not> i < int (length ms)" by simp
  then show ?case
    by (subst migrate_loop.simps) simp
next
  case (Suc n)
  then have lt: "i < int (length ms)" by linarith
  note d = drop_step [OF Suc.prems(2) lt]
  note ops = driver_ops_no_faults [OF Suc.prems(1)]
  show ?case
  proof (cases "exec_stmt (ms ! nat i) (db_file s)")
    case (Inl e)
    then show ?thesis
      using lt Suc.prems
      by (subst migrate_loop.simps) (simp add: ops d tx_Rollback_def)
  next
    case d1: (Inr d1)
    show ?thesis
    proof (cases "update_version (i + 1) d1")
      case (Inl e)
      then show ?thesis
        using lt Suc.prems d1
        by (subst migrate_loop.simps) (simp add: ops d tx_Rollback_def)
    next
      case d2: (Inr d2)
      have f: "faults (s\<lparr>db_file := d2\<rparr>) = []" using Suc.prems(1) by simp
      have n: "n = nat (int (length ms) - (i + 1))" using Suc.hyps(2) by simp
      have "migrate_loop ms (i + 1) (s\<lparr>db_file := d2\<rparr>) =
          (case apply_pending (drop (nat (i + 1)) ms) (i + 1) d2 of (r, d) \<Rightarrow> (r, s\<lparr>db_file := d\<rparr>))"
        using Suc.hyps(1) [OF n f] Suc.prems(2) by simp
      then show ?thesis
        using lt Suc.prems d1 d2
        by (subst migrate_loop.simps) (simp add: ops d)
    qed
  qed
qed

lemma exec_stmt_keeps_version: "exec_stmt m d = Inr d1 \<Longrightarrow> schema_version d1 = schema_version d"
  by (cases m) (auto split: option.splits if_splits)

lemma update_version_select:
  assumes "select_version d = Inr v" "update_version w d = Inr d2"
  shows "select_version d2 = Inr w"
  using assms
  by (auto simp add: select_version_def update_version_def split: option.splits list.splits)

lemma select_version_cong: "schema_version d1 = schema_version d \<Longrightarrow> select_version d1 = select_version d"
  by (simp add: select_version_def)

lemma apply_pending_version:
  assumes "apply_pending ps v d = (None, d')" "select_version d = Inr v"
  shows "select_version d' = Inr (v + int (length ps))"
  using assms
proof (induction ps arbitrary: v d)
  case Nil
  then show ?case by simp
next
  case (Cons m ps)
  from Cons.prems(1) obtain d1 d2 where
    s: "exec_stmt m d = Inr d1" "update_version (v + 1) d1 = Inr d2"
      "apply_pending ps (v + 1) d2 = (None, d')"
    by (auto split: sum.splits)
  have "select_version d1 = Inr v"
    using select_version_cong [OF exec_stmt_keeps_version [OF s(1)]] Cons.prems(2) by simp
  then have "select_version d2 = Inr (v + 1)"
    using s(2) by (rule update_version_select)
  from Cons.IH [OF s(3) this] show ?case by simp
qed

lemma initialSchema_present:
  assumes "tasks d \<noteq> None" "select_version d = Inr v"
  shows "initialSchema d = Inr d"
  using assms
  by (auto simp add: initialSchema_def select_version_def split: option.splits list.splits)

lemma migrate_list_refines:
  assumes "faults s = []" "select_version (db_file s) = Inr v" "0 \<le> v"
  shows "migrate_list ms s =
           (case apply_pending (drop (nat v) ms) v (db_file s) of (r, d) \<Rightarrow> (r, s\<lparr>db_file := d\<rparr>))"
  using assms by (simp add: migrate_list_def driver_call_def migrate_loop_refines)

lemma New_refines:
  assumes "faults s = []" "select_version (db_file s) = Inr v" "0 \<le> v" "tasks (db_file s) \<noteq> None"
  shows "New s = (case apply_pending (drop (nat v) migrations) v (db_file s) of
                    (r, d) \<Rightarrow> (map_option (ErrWrap ''migrate'') r, s\<lparr>db_file := d\<rparr>))"
proof -
  have "db_Exec initialSchema s = (None, s)"
    using assms(1) initialSchema_present [OF assms(4,2)] by (simp add: db_Exec_def driver_call_def)
  then show ?thesis
    by (simp add: New_def migrate_def migrate_list_refines [OF assms(1-3)]
        split: prod.splits option.splits)
qed

lemma apply_pending_bootstrap:
  "apply_pending migrations 0
     \<lparr>tasks = Some \<lparr>columns = initial_columns, rows = [], seq = 0\<rparr>, schema_version = Some [0]\<rparr>
   = (None, bootstrapped)"
  by (simp add: migrations_def has_column_def initial_columns_def value_when_omitted_def
      update_version_def bootstrapped_def)

lemma select_version_bootstrapped: "select_version bootstrapped = Inr (int (length migrations))"
  by (simp add: select_version_def bootstrapped_def migrations_def)

lemma New_bootstrapped:
  "New \<lparr>db_file = bootstrapped, faults = []\<rparr> = (None, \<lparr>db_file = bootstrapped, faults = []\<rparr>)"
proof -
  have "select_version (db_file \<lparr>db_file = bootstrapped, faults = []\<rparr>) = Inr 1"
    by (simp add: select_version_def bootstrapped_def)
  from New_refines [OF _ this] show ?thesis
    by (simp add: migrations_def bootstrapped_def)
qed

text \<open>C3: \<open>migrate\<close> on a database whose stored version is \<open>v\<close> does what applying the
  migrations with index above \<open>v\<close>, in the order of the list, each once and each followed by
  the version update, does; when it succeeds the stored version is the number of
  migrations; on a database that is up to date it applies nothing and changes nothing, and
  so does \<open>New\<close> there. \<open>New\<close> on a new file runs the initial schema and then every migration
  once, and leaves the version at the number of migrations; \<open>New\<close> on the result changes
  nothing.\<close>

theorem migrations_applied_once_in_order:
  "(faults s = [] \<and> select_version (db_file s) = Inr v \<and> 0 \<le> v \<longrightarrow>
      migrate_list ms s =
        (case apply_pending (drop (nat v) ms) v (db_file s) of (r, d) \<Rightarrow> (r, s\<lparr>db_file := d\<rparr>)) \<and>
      (fst (migrate_list ms s) = None \<and> v \<le> int (length ms) \<longrightarrow>
         select_version (db_file (snd (migrate_list ms s))) = Inr (int (length ms))) \<and>
      (int (length ms) \<le> v \<longrightarrow> migrate_list ms s = (None, s)) \<and>
      (tasks (db_file s) \<noteq> None \<longrightarrow>
         New s = (case apply_pending (drop (nat v) migrations) v (db_file s) of
                    (r, d) \<Rightarrow> (map_option (ErrWrap ''migrate'') r, s\<lparr>db_file := d\<rparr>)) \<and>
         (int (length migrations) \<le> v \<longrightarrow> New s = (None, s)))) \<and>
   New fresh_db = (None, \<lparr>db_file = bootstrapped, faults = []\<rparr>) \<and>
   apply_pending migrations 0
       \<lparr>tasks = Some \<lparr>columns = initial_columns, rows = [], seq = 0\<rparr>, schema_version = Some [0]\<rparr>
     = (None, bootstrapped) \<and>
   select_version bootstrapped = Inr (int (length migrations)) \<and>
   New \<lparr>db_file = bootstrapped, faults = []\<rparr> = (None, \<lparr>db_file = bootstrapped, faults = []\<rparr>)"
proof (intro conjI impI)
  assume a: "faults s = [] \<and> select_version (db_file s) = Inr v \<and> 0 \<le> v"
  then have f: "faults s = []" and v: "select_version (db_file s) = Inr v" and n: "0 \<le> v"
    by simp_all
  note r = migrate_list_refines [OF f v n]
  show "migrate_list ms s =
        (case apply_pending (drop (nat v) ms) v (db_file s) of (r, d) \<Rightarrow> (r, s\<lparr>db_file := d\<rparr>))"
    by (rule r)
  {
    assume b: "fst (migrate_list ms s) = None \<and> v \<le> int (length ms)"
    obtain d where d: "apply_pending (drop (nat v) ms) v (db_file s) = (None, d)"
      using b r [of ms] by (cases "apply_pending (drop (nat v) ms) v (db_file s)") simp
    have "select_version d = Inr (v + int (length (drop (nat v) ms)))"
      by (rule apply_pending_version [OF d v])
    moreover have "v + int (length (drop (nat v) ms)) = int (length ms)"
    proof -
      have "nat v \<le> length ms" using conjunct2 [OF b] n by linarith
      then show ?thesis using n by (simp add: of_nat_diff)
    qed
    ultimately show "select_version (db_file (snd (migrate_list ms s))) = Inr (int (length ms))"
      by (simp add: r d)
  }
  {
    assume "int (length ms) \<le> v"
    then show "migrate_list ms s = (None, s)"
      by (simp add: r)
  }
  {
    assume t: "tasks (db_file s) \<noteq> None"
    show "New s = (case apply_pending (drop (nat v) migrations) v (db_file s) of
                    (r, d) \<Rightarrow> (map_option (ErrWrap ''migrate'') r, s\<lparr>db_file := d\<rparr>))"
      by (rule New_refines [OF f v n t])
    assume "int (length migrations) \<le> v"
    then show "New s = (None, s)"
      by (simp add: New_refines [OF f v n t])
  }
qed (simp_all add: New_fresh_db apply_pending_bootstrap select_version_bootstrapped New_bootstrapped)

theorem migrations_applied_once_in_order_witness:
  "faults \<lparr>db_file = bootstrapped, faults = []\<rparr> = [] \<and>
   select_version (db_file \<lparr>db_file = bootstrapped, faults = []\<rparr>) = Inr 1 \<and>
   migrate_list migrations_with_due_date \<lparr>db_file = bootstrapped, faults = []\<rparr>
     = (None, \<lparr>db_file = bootstrapped_with_due_date, faults = []\<rparr>) \<and>
   select_version bootstrapped_with_due_date = Inr 2 \<and>
   migrate_list migrations_with_due_date \<lparr>db_file = bootstrapped_with_due_date, faults = []\<rparr>
     = (None, \<lparr>db_file = bootstrapped_with_due_date, faults = []\<rparr>)"
proof -
  have v: "select_version bootstrapped = Inr 1" "select_version bootstrapped_with_due_date = Inr 2"
    by (simp_all add: select_version_def bootstrapped_def bootstrapped_with_due_date_def)
  have l: "drop (Suc 0) migrations_with_due_date = [AlterTableTasksAddColumn
        \<lparr>col_name = ''due_date'', col_type = TEXT, col_notnull = False, col_default = None,
         col_primary_key = False\<rparr>]" "length migrations_with_due_date = 2"
    by (simp_all add: migrations_with_due_date_def migrations_def)
  have p: "apply_pending [AlterTableTasksAddColumn
        \<lparr>col_name = ''due_date'', col_type = TEXT, col_notnull = False, col_default = None,
         col_primary_key = False\<rparr>] 1 bootstrapped = (None, bootstrapped_with_due_date)"
    by (simp add: bootstrapped_def bootstrapped_with_due_date_def has_column_def
        initial_columns_def value_when_omitted_def update_version_def)
  from migrations_applied_once_in_order [of "\<lparr>db_file = bootstrapped, faults = []\<rparr>" 1
      migrations_with_due_date, THEN conjunct1]
    migrations_applied_once_in_order [of "\<lparr>db_file = bootstrapped_with_due_date, faults = []\<rparr>" 2
      migrations_with_due_date, THEN conjunct1]
  show ?thesis
    using v by (simp add: l p del: apply_pending.simps(2))
qed

subsection \<open>Failures during a migration\<close>

lemma driver_call_file: "driver_call s = (b, s1) \<Longrightarrow> db_file s1 = db_file s"
  by (auto simp add: driver_call_def split: list.splits)

lemma db_Begin_cases:
  obtains (fail) s1 where "db_Begin s = (Inl ErrDriver, s1)" "db_file s1 = db_file s"
  | (ok) s1 where "db_Begin s = (Inr (db_file s), s1)" "db_file s1 = db_file s"
proof (cases "driver_call s")
  case (Pair b s1)
  then show ?thesis
    using driver_call_file [OF Pair] fail [of s1] ok [of s1]
    by (cases b) (simp_all add: db_Begin_def)
qed

lemma tx_Exec_cases:
  obtains (fail) s1 where "tx_Exec f w s = (Inl ErrDriver, s1)" "db_file s1 = db_file s"
  | (ok) s1 where "tx_Exec f w s = (f w, s1)" "db_file s1 = db_file s"
proof (cases "driver_call s")
  case (Pair b s1)
  then show ?thesis
    using driver_call_file [OF Pair] fail [of s1] ok [of s1]
    by (cases b) (simp_all add: tx_Exec_def)
qed

lemma tx_Exec_file: "tx_Exec f w s = (r, s1) \<Longrightarrow> db_file s1 = db_file s"
  by (cases rule: tx_Exec_cases [of f w s]) auto

lemma tx_Exec_Inr: "tx_Exec f w s = (Inr w1, s1) \<Longrightarrow> f w = Inr w1"
  by (cases rule: tx_Exec_cases [of f w s]) auto

lemma db_Begin_Inr: "db_Begin s = (Inr tx, s1) \<Longrightarrow> tx = db_file s \<and> db_file s1 = db_file s"
  by (cases rule: db_Begin_cases [of s]) auto

lemma db_Begin_Inl: "db_Begin s = (Inl e, s1) \<Longrightarrow> db_file s1 = db_file s"
  by (cases rule: db_Begin_cases [of s]) auto

lemma tx_Commit_cases:
  obtains (fail) s1 where "tx_Commit w s = (Some ErrDriver, s1)" "db_file s1 = db_file s"
  | (ok) s1 where "tx_Commit w s = (None, s1)" "db_file s1 = w"
proof (cases "driver_call s")
  case (Pair b s1)
  then show ?thesis
    using driver_call_file [OF Pair] fail [of s1] ok [of "s1\<lparr>db_file := w\<rparr>"]
    by (cases b) (simp_all add: tx_Commit_def)
qed

lemma tx_Commit_Some: "tx_Commit w s = (Some e, s1) \<Longrightarrow> db_file s1 = db_file s"
  by (cases rule: tx_Commit_cases [of w s]) auto

lemma tx_Commit_None: "tx_Commit w s = (None, s1) \<Longrightarrow> db_file s1 = w"
  by (cases rule: tx_Commit_cases [of w s]) auto

text \<open>One turn of the loop of \<open>migrate\<close>: it ends the run with an error and the file as it
  was, or the statement and the version update have both taken effect and the loop goes on
  with the next index.\<close>

lemma migrate_loop_step:
  assumes "0 \<le> i" "i < int (length ms)"
  shows "(\<exists>e s'. migrate_loop ms i s = (Some e, s') \<and> db_file s' = db_file s) \<or>
         (\<exists>d1 d2 s'. exec_stmt (ms ! nat i) (db_file s) = Inr d1 \<and>
            update_version (i + 1) d1 = Inr d2 \<and> db_file s' = d2 \<and>
            migrate_loop ms i s = migrate_loop ms (i + 1) s')"
proof -
  obtain b s1 where b: "db_Begin s = (b, s1)" by (cases "db_Begin s")
  show ?thesis
  proof (cases b)
    case (Inl e)
    with b assms show ?thesis
      using db_Begin_Inl [of s e s1] by (subst migrate_loop.simps) simp
  next
    case (Inr tx)
    with b have tx: "tx = db_file s" "db_file s1 = db_file s"
      using db_Begin_Inr [of s tx s1] by simp_all
    obtain x s2 where x: "tx_Exec (exec_stmt (ms ! nat i)) tx s1 = (x, s2)"
      by (cases "tx_Exec (exec_stmt (ms ! nat i)) tx s1")
    have s2: "db_file s2 = db_file s" using tx_Exec_file [OF x] tx by simp
    show ?thesis
    proof (cases x)
      case (Inl e)
      with b Inr x s2 assms show ?thesis
        by (subst migrate_loop.simps) (simp add: tx_Rollback_def)
    next
      case d1: (Inr d1)
      have e1: "exec_stmt (ms ! nat i) (db_file s) = Inr d1"
        using tx_Exec_Inr [of _ tx s1 d1 s2] x d1 tx by simp
      obtain y s3 where y: "tx_Exec (update_version (i + 1)) d1 s2 = (y, s3)"
        by (cases "tx_Exec (update_version (i + 1)) d1 s2")
      have s3: "db_file s3 = db_file s" using tx_Exec_file [OF y] s2 by simp
      show ?thesis
      proof (cases y)
        case (Inl e)
        with b Inr x d1 y s3 assms show ?thesis
          by (subst migrate_loop.simps) (simp add: tx_Rollback_def)
      next
        case d2: (Inr d2)
        have e2: "update_version (i + 1) d1 = Inr d2"
          using tx_Exec_Inr [of _ d1 s2 d2 s3] y d2 by simp
        obtain c s4 where c: "tx_Commit d2 s3 = (c, s4)" by (cases "tx_Commit d2 s3")
        show ?thesis
        proof (cases c)
          case (Some e)
          with c have "db_file s4 = db_file s" using tx_Commit_Some [of d2 s3 e s4] s3 by simp
          with b Inr x d1 y d2 c Some assms show ?thesis
            by (subst migrate_loop.simps) simp
        next
          case None
          with c have "db_file s4 = d2" using tx_Commit_None [of d2 s3 s4] by simp
          moreover have "migrate_loop ms i s = migrate_loop ms (i + 1) s4"
            using b Inr x d1 y d2 c None assms by (subst migrate_loop.simps) simp
          ultimately show ?thesis
            using e1 e2 by blast
        qed
      qed
    qed
  qed
qed

lemma migrate_loop_whole_steps:
  assumes "0 \<le> i"
  shows "\<exists>k. apply_pending (take k (drop (nat i) ms)) i (db_file s)
               = (None, db_file (snd (migrate_loop ms i s))) \<and>
             (fst (migrate_loop ms i s) = None \<longrightarrow> int (length ms) \<le> i + int k)"
  using assms
proof (induction "nat (int (length ms) - i)" arbitrary: i s)
  case 0
  then have "\<not> i < int (length ms)" by simp
  then have "migrate_loop ms i s = (None, s)"
    by (subst migrate_loop.simps) simp
  then have "apply_pending (take 0 (drop (nat i) ms)) i (db_file s)
               = (None, db_file (snd (migrate_loop ms i s))) \<and>
             (fst (migrate_loop ms i s) = None \<longrightarrow> int (length ms) \<le> i + int 0)"
    using \<open>\<not> i < int (length ms)\<close> by simp
  then show ?case by (rule exI [of _ 0])
next
  case (Suc n)
  then have lt: "i < int (length ms)" by linarith
  from migrate_loop_step [OF Suc.prems lt, of s]
  show ?case
  proof (elim disjE exE conjE)
    fix e s'
    assume "migrate_loop ms i s = (Some e, s')" "db_file s' = db_file s"
    then have "apply_pending (take 0 (drop (nat i) ms)) i (db_file s)
               = (None, db_file (snd (migrate_loop ms i s))) \<and>
             (fst (migrate_loop ms i s) = None \<longrightarrow> int (length ms) \<le> i + int 0)"
      by simp
    then show ?thesis by (rule exI [of _ 0])
  next
    fix d1 d2 s'
    assume s: "exec_stmt (ms ! nat i) (db_file s) = Inr d1" "update_version (i + 1) d1 = Inr d2"
      "db_file s' = d2" "migrate_loop ms i s = migrate_loop ms (i + 1) s'"
    have n: "n = nat (int (length ms) - (i + 1))" using Suc.hyps(2) by simp
    have "0 \<le> i + 1" using Suc.prems by simp
    from Suc.hyps(1) [OF n this, of s'] obtain k where
      k: "apply_pending (take k (drop (nat (i + 1)) ms)) (i + 1) d2
            = (None, db_file (snd (migrate_loop ms (i + 1) s')))"
        "fst (migrate_loop ms (i + 1) s') = None \<longrightarrow> int (length ms) \<le> i + 1 + int k"
      using s(3) by auto
    have "apply_pending (take (Suc k) (drop (nat i) ms)) i (db_file s)
               = (None, db_file (snd (migrate_loop ms i s)))"
      using k(1) s by (simp add: drop_step [OF Suc.prems lt])
    moreover have "fst (migrate_loop ms i s) = None \<longrightarrow> int (length ms) \<le> i + int (Suc k)"
      using k(2) s(4) by (simp add: add.assoc)
    ultimately show ?thesis by (intro exI [of _ "Suc k"] conjI)
  qed
qed

lemma migrate_loop_statement_fails:
  assumes "0 \<le> i" "i < int (length ms)" "db_Begin s = (Inr tx, s1)"
    and "tx_Exec (exec_stmt (ms ! nat i)) tx s1 = (Inl e, s')"
  shows "migrate_loop ms i s = (Some (ErrWrap (''run migration '' @ appendInt (i + 1) 0) e), s')"
    and "db_file s' = db_file s"
proof -
  show "migrate_loop ms i s = (Some (ErrWrap (''run migration '' @ appendInt (i + 1) 0) e), s')"
    using assms by (subst migrate_loop.simps) (simp add: tx_Rollback_def)
  show "db_file s' = db_file s"
    using tx_Exec_file [OF assms(4)] db_Begin_Inr [OF assms(3)] by simp
qed

lemma migrate_loop_version_update_fails:
  assumes "0 \<le> i" "i < int (length ms)" "db_Begin s = (Inr tx, s1)"
    and "tx_Exec (exec_stmt (ms ! nat i)) tx s1 = (Inr tx1, s2)"
    and "tx_Exec (update_version (i + 1)) tx1 s2 = (Inl e, s')"
  shows "migrate_loop ms i s = (Some (ErrWrap ''update schema version'' e), s')"
    and "db_file s' = db_file s"
proof -
  show "migrate_loop ms i s = (Some (ErrWrap ''update schema version'' e), s')"
    using assms by (subst migrate_loop.simps) (simp add: tx_Rollback_def)
  show "db_file s' = db_file s"
    using tx_Exec_file [OF assms(5)] tx_Exec_file [OF assms(4)] db_Begin_Inr [OF assms(3)] by simp
qed

lemma New_migrate_error:
  assumes "db_Exec initialSchema s = (None, s1)" "migrate s1 = (Some e, s')"
  shows "New s = (Some (ErrWrap ''migrate'' e), s')"
  using assms by (simp add: New_def)

text \<open>C4: in every turn of the loop of \<open>migrate\<close>, the run ends with an error and the database
  file as it was before the turn, or the statement of the step and the update of the version
  to \<open>i + 1\<close> have both taken effect and the loop goes on. When the statement fails, and when
  the version update fails, \<open>migrate\<close> returns the wrapped error and the file is as before the
  step; \<open>New\<close> passes the error on. Whatever fails and wherever, the file that \<open>migrate\<close>
  leaves is the result of some number of complete steps, and of all of them when it returns
  no error.\<close>

theorem migration_step_atomic:
  "(0 \<le> i \<and> i < int (length ms) \<longrightarrow>
      ((\<exists>err s'. migrate_loop ms i s = (Some err, s') \<and> db_file s' = db_file s) \<or>
       (\<exists>da db s'. exec_stmt (ms ! nat i) (db_file s) = Inr da \<and>
          update_version (i + 1) da = Inr db \<and> db_file s' = db \<and>
          migrate_loop ms i s = migrate_loop ms (i + 1) s')) \<and>
      (db_Begin s = (Inr tx, sb) \<and> tx_Exec (exec_stmt (ms ! nat i)) tx sb = (Inl e, sx) \<longrightarrow>
         migrate_loop ms i s = (Some (ErrWrap (''run migration '' @ appendInt (i + 1) 0) e), sx) \<and>
         db_file sx = db_file s) \<and>
      (db_Begin s = (Inr tx, sb) \<and> tx_Exec (exec_stmt (ms ! nat i)) tx sb = (Inr tx', sx) \<and>
       tx_Exec (update_version (i + 1)) tx' sx = (Inl e, sv) \<longrightarrow>
         migrate_loop ms i s = (Some (ErrWrap ''update schema version'' e), sv) \<and>
         db_file sv = db_file s)) \<and>
   (0 \<le> i \<longrightarrow>
      (\<exists>k. apply_pending (take k (drop (nat i) ms)) i (db_file s)
              = (None, db_file (snd (migrate_loop ms i s))) \<and>
           (fst (migrate_loop ms i s) = None \<longrightarrow> int (length ms) \<le> i + int k))) \<and>
   (db_Exec initialSchema s = (None, sb) \<and> migrate sb = (Some e, sx) \<longrightarrow>
      New s = (Some (ErrWrap ''migrate'' e), sx))"
proof (intro conjI impI)
  assume a: "0 \<le> i \<and> i < int (length ms)"
  then have i: "0 \<le> i" "i < int (length ms)" by simp_all
  show "(\<exists>err s'. migrate_loop ms i s = (Some err, s') \<and> db_file s' = db_file s) \<or>
       (\<exists>da db s'. exec_stmt (ms ! nat i) (db_file s) = Inr da \<and>
          update_version (i + 1) da = Inr db \<and> db_file s' = db \<and>
          migrate_loop ms i s = migrate_loop ms (i + 1) s')"
    by (rule migrate_loop_step [OF i])
  {
    assume b: "db_Begin s = (Inr tx, sb) \<and> tx_Exec (exec_stmt (ms ! nat i)) tx sb = (Inl e, sx)"
    show "migrate_loop ms i s = (Some (ErrWrap (''run migration '' @ appendInt (i + 1) 0) e), sx)"
      by (rule migrate_loop_statement_fails(1) [OF i conjunct1 [OF b] conjunct2 [OF b]])
    show "db_file sx = db_file s"
      by (rule migrate_loop_statement_fails(2) [OF i conjunct1 [OF b] conjunct2 [OF b]])
  }
  {
    assume b: "db_Begin s = (Inr tx, sb) \<and> tx_Exec (exec_stmt (ms ! nat i)) tx sb = (Inr tx', sx) \<and>
       tx_Exec (update_version (i + 1)) tx' sx = (Inl e, sv)"
    then have c: "db_Begin s = (Inr tx, sb)" "tx_Exec (exec_stmt (ms ! nat i)) tx sb = (Inr tx', sx)"
      "tx_Exec (update_version (i + 1)) tx' sx = (Inl e, sv)"
      by simp_all
    show "migrate_loop ms i s = (Some (ErrWrap ''update schema version'' e), sv)"
      by (rule migrate_loop_version_update_fails(1) [OF i c])
    show "db_file sv = db_file s"
      by (rule migrate_loop_version_update_fails(2) [OF i c])
  }
next
  assume "0 \<le> i"
  then show "\<exists>k. apply_pending (take k (drop (nat i) ms)) i (db_file s)
              = (None, db_file (snd (migrate_loop ms i s))) \<and>
           (fst (migrate_loop ms i s) = None \<longrightarrow> int (length ms) \<le> i + int k)"
    by (rule migrate_loop_whole_steps)
next
  assume b: "db_Exec initialSchema s = (None, sb) \<and> migrate sb = (Some e, sx)"
  show "New s = (Some (ErrWrap ''migrate'' e), sx)"
    by (rule New_migrate_error [OF conjunct1 [OF b] conjunct2 [OF b]])
qed

theorem migration_step_atomic_witness:
  "migrate_loop migrations 0 \<lparr>db_file = schema_only, faults = [False, True]\<rparr>
     = (Some (ErrWrap ''run migration 1'' ErrDriver), \<lparr>db_file = schema_only, faults = []\<rparr>) \<and>
   migrate_loop migrations 0 \<lparr>db_file = schema_only, faults = [False, False, True]\<rparr>
     = (Some (ErrWrap ''update schema version'' ErrDriver), \<lparr>db_file = schema_only, faults = []\<rparr>) \<and>
   New (fresh_db\<lparr>faults := [False, False, False, False, True]\<rparr>)
     = (Some (ErrWrap ''migrate'' (ErrWrap ''update schema version'' ErrDriver)),
        \<lparr>db_file = schema_only, faults = []\<rparr>) \<and>
   select_version schema_only = Inr 0 \<and> find_column ''closed_at'' schema_only = None"
proof -
  have a: "appendInt 1 0 = ''1''"
    by (simp add: appendInt_def digits_of.simps digit_char_def char_of_def bit_simps)
  have b1: "db_Begin \<lparr>db_file = schema_only, faults = [False, True]\<rparr>
      = (Inr schema_only, \<lparr>db_file = schema_only, faults = [True]\<rparr>)"
    and b2: "db_Begin \<lparr>db_file = schema_only, faults = [False, False, True]\<rparr>
      = (Inr schema_only, \<lparr>db_file = schema_only, faults = [False, True]\<rparr>)"
    by (simp_all add: db_Begin_def driver_call_def)
  have x1: "tx_Exec (exec_stmt (migrations ! nat 0)) schema_only \<lparr>db_file = schema_only, faults = [True]\<rparr>
      = (Inl ErrDriver, \<lparr>db_file = schema_only, faults = []\<rparr>)"
    by (simp add: tx_Exec_def driver_call_def)
  obtain tx' where x2: "tx_Exec (exec_stmt (migrations ! nat 0)) schema_only
        \<lparr>db_file = schema_only, faults = [False, True]\<rparr>
      = (Inr tx', \<lparr>db_file = schema_only, faults = [True]\<rparr>)"
    by (simp add: tx_Exec_def driver_call_def migrations_def schema_only_def has_column_def
        initial_columns_def value_when_omitted_def)
  have x3: "tx_Exec (update_version (0 + 1)) tx' \<lparr>db_file = schema_only, faults = [True]\<rparr>
      = (Inl ErrDriver, \<lparr>db_file = schema_only, faults = []\<rparr>)"
    by (simp add: tx_Exec_def driver_call_def)
  have l: "(0::int) \<le> 0 \<and> 0 < int (length migrations)"
    by (simp add: migrations_def)
  have i: "db_Exec initialSchema (fresh_db\<lparr>faults := [False, False, False, False, True]\<rparr>)
      = (None, \<lparr>db_file = schema_only, faults = [False, False, False, True]\<rparr>)"
    by (simp add: db_Exec_def driver_call_def fresh_db_def empty_database_def initialSchema_def
        schema_only_def)
  have m1: "migrate_loop migrations 0 \<lparr>db_file = schema_only, faults = [False, True]\<rparr>
     = (Some (ErrWrap ''run migration 1'' ErrDriver), \<lparr>db_file = schema_only, faults = []\<rparr>)"
    using migration_step_atomic [of 0 migrations "\<lparr>db_file = schema_only, faults = [False, True]\<rparr>"
        schema_only "\<lparr>db_file = schema_only, faults = [True]\<rparr>" ErrDriver
        "\<lparr>db_file = schema_only, faults = []\<rparr>", THEN conjunct1] l b1 x1
    by (simp add: a)
  have m2: "migrate_loop migrations 0 \<lparr>db_file = schema_only, faults = [False, False, True]\<rparr>
     = (Some (ErrWrap ''update schema version'' ErrDriver), \<lparr>db_file = schema_only, faults = []\<rparr>)"
    using migration_step_atomic [of 0 migrations
        "\<lparr>db_file = schema_only, faults = [False, False, True]\<rparr>"
        schema_only "\<lparr>db_file = schema_only, faults = [False, True]\<rparr>" ErrDriver
        "\<lparr>db_file = schema_only, faults = [True]\<rparr>" tx' "\<lparr>db_file = schema_only, faults = []\<rparr>",
        THEN conjunct1] l b2 x2 x3
    by simp
  have g: "migrate \<lparr>db_file = schema_only, faults = [False, False, False, True]\<rparr>
      = (Some (ErrWrap ''update schema version'' ErrDriver), \<lparr>db_file = schema_only, faults = []\<rparr>)"
    using m2 by (simp add: migrate_def migrate_list_def driver_call_def select_version_def
        schema_only_def)
  have n: "New (fresh_db\<lparr>faults := [False, False, False, False, True]\<rparr>)
     = (Some (ErrWrap ''migrate'' (ErrWrap ''update schema version'' ErrDriver)),
        \<lparr>db_file = schema_only, faults = []\<rparr>)"
    by (rule New_migrate_error [OF i g])
  show ?thesis
    using m1 m2 n
    by (simp add: select_version_def find_column_def schema_only_def initial_columns_def)
qed

section \<open>The order of the listing\<close>

lemma is_digit_val: "is_digit c \<Longrightarrow> digit_val c \<le> 9"
  unfolding is_digit_def digit_val_def by arith

lemma atoi_acc_bound: "atoi_acc n cs = Some m \<Longrightarrow> m < (n + 1) * 10 ^ length cs"
proof (induction cs arbitrary: n)
  case Nil
  then show ?case by simp
next
  case (Cons c cs)
  then have d: "is_digit c" and r: "atoi_acc (10 * n + digit_val c) cs = Some m"
    by (simp_all split: if_splits)
  have "m < (10 * n + digit_val c + 1) * 10 ^ length cs"
    by (rule Cons.IH [OF r])
  also have "\<dots> \<le> (10 * n + 10) * 10 ^ length cs"
    using is_digit_val [OF d] by (intro mult_right_mono) simp_all
  also have "\<dots> = (n + 1) * 10 ^ length (c # cs)"
    by (simp add: algebra_simps)
  finally show ?case .
qed

lemma atoi_bound: "atoi cs = Some m \<Longrightarrow> m < 10 ^ length cs"
  using atoi_acc_bound [of 0 cs m] by (simp add: atoi_def split: if_splits)

lemma time_parse_Some:
  assumes "time_parse s = Some t"
  shows "valid_time t" "year_in_range t" "Nanosecond t = 0"
proof -
  from assms obtain y mo d h mi sec z where
    l: "20 \<le> length s" and y: "atoi (take 4 s) = Some y"
    and t: "t = \<lparr>Year = int y, Month = mo, Day = d, Hour = h, Minute = mi, Second = sec,
                 Nanosecond = 0, ZoneOffset = z\<rparr>"
    and v: "valid_time t"
    by (auto simp add: time_parse_def Let_def split: if_splits Option.bind_splits)
  show "valid_time t" by (rule v)
  have "y < 10 ^ length (take 4 s)" by (rule atoi_bound [OF y])
  then have "y < 10000" using l by simp
  then show "year_in_range t" by (simp add: t year_in_range_def)
  show "Nanosecond t = 0" by (simp add: t)
qed

lemma row_wf_created:
  assumes "row_wf z r"
  shows "valid_time (CreatedAt (scan_task r))" "year_in_range (CreatedAt (scan_task r))"
    "Nanosecond (CreatedAt (scan_task r)) = 0" "ZoneOffset (CreatedAt (scan_task r)) = z"
    "time_format (CreatedAt (scan_task r)) = r_created_at r"
    "r_done r = 0 \<or> r_done r = 1"
proof -
  from assms obtain t where t: "time_parse (r_created_at r) = Some t" "ZoneOffset t = z"
    "time_format t = r_created_at r" and d: "r_done r = 0 \<or> r_done r = 1"
    by (auto simp add: row_wf_def split: option.splits)
  have c: "CreatedAt (scan_task r) = t"
    by (simp add: scan_task_def parse_or_zero_def t(1))
  show "valid_time (CreatedAt (scan_task r))" "year_in_range (CreatedAt (scan_task r))"
    "Nanosecond (CreatedAt (scan_task r)) = 0"
    unfolding c by (rule time_parse_Some [OF t(1)])+
  show "ZoneOffset (CreatedAt (scan_task r)) = z" "time_format (CreatedAt (scan_task r)) = r_created_at r"
    unfolding c by (rule t)+
  show "r_done r = 0 \<or> r_done r = 1" by (rule d)
qed

lemma Before_whole_seconds:
  assumes "valid_time t" "year_in_range t" "valid_time u" "year_in_range u"
    and "ZoneOffset t = ZoneOffset u" "Nanosecond t = 0" "Nanosecond u = 0"
  shows "Before t u \<longleftrightarrow> time_format t < time_format u"
  unfolding time_format_less_iff [OF assms(1-5)] Before_def abs_seconds_def assms(5,6,7)
  using civil_seconds_less_iff [OF assms(1,3)] by simp

lemma rows_in_order:
  assumes "row_wf z a" "row_wf z b" "order_key a \<le> order_key b"
  shows "(Done (scan_task a) \<longrightarrow> Done (scan_task b)) \<and>
         (Done (scan_task a) = Done (scan_task b) \<longrightarrow>
            Priority (scan_task b) \<le> Priority (scan_task a)) \<and>
         (Done (scan_task a) = Done (scan_task b) \<and> Priority (scan_task a) = Priority (scan_task b) \<longrightarrow>
            \<not> Before (CreatedAt (scan_task b)) (CreatedAt (scan_task a)))"
proof -
  note wa = row_wf_created [OF assms(1)] and wb = row_wf_created [OF assms(2)]
  have bf: "Before (CreatedAt (scan_task b)) (CreatedAt (scan_task a))
      \<longleftrightarrow> r_created_at b < r_created_at a"
    using Before_whole_seconds [OF wb(1,2) wa(1,2) _ wb(3) wa(3)] wa(4,5) wb(4,5) by simp
  have k: "r_done a < r_done b \<or> (r_done a = r_done b \<and>
      (r_priority b < r_priority a \<or> (r_priority a = r_priority b \<and> r_created_at a \<le> r_created_at b)))"
    using assms(3) by (auto simp add: order_key_def)
  have d: "Done (scan_task a) = (r_done a = 1)" "Done (scan_task b) = (r_done b = 1)"
    using wa(6) wb(6) by (auto simp add: scan_task_def)
  have p: "Priority (scan_task a) = r_priority a" "Priority (scan_task b) = r_priority b"
    by (simp_all add: scan_task_def)
  show ?thesis
    unfolding bf d p using k wa(6) wb(6) by auto
qed

lemma two_zone_db_reached:
  "Service_Add after_shift ''second'' '''' PriorityMedium
     (snd (Service_Add before_shift ''first'' '''' PriorityMedium (snd (New fresh_db))))
   = (Inr second_task, two_zone_db)"
  by (simp add: New_fresh_db Service_Add_def SQLiteStore_Create_def driver_call_def
      insert_task_def bootstrapped_def has_closed_at_bootstrapped next_rowid_def boolToInt_def
      example_times_format second_task_def two_zone_db_def PriorityMedium_def)

lemma parse_shift_times:
  "time_parse ''2024-10-27T03:30:00+03:00'' = Some before_shift"
  "time_parse ''2024-10-27T03:10:00+02:00'' = Some after_shift"
  by (simp_all add: time_parse_def atoi_def is_digit_def digit_val_def parse_zone_def valid_time_def
      days_in_def is_leap_def example_times)

lemma All_two_zone_db: "Service_All two_zone_db = (Inr [second_task, first_task], two_zone_db)"
  by (simp add: Service_All_def SQLiteStore_List_def driver_call_def two_zone_db_def
      select_tasks_def has_closed_at_bootstrapped bootstrapped_def order_key_def scan_task_def
      parse_or_zero_def parse_shift_times first_task_def second_task_def PriorityMedium_def)

text \<open>C1 (as stated, refuted): two tasks added forty minutes apart, the zone offset of the
  clock having changed in between; neither is done and both have priority Medium. \<open>All\<close>
  lists the one created later first.\<close>

theorem list_not_chronological:
  "Service_Add after_shift ''second'' '''' PriorityMedium
     (snd (Service_Add before_shift ''first'' '''' PriorityMedium (snd (New fresh_db))))
     = (Inr second_task, two_zone_db) \<and>
   Service_All two_zone_db = (Inr [second_task, first_task], two_zone_db) \<and>
   Done second_task = Done first_task \<and> Priority second_task = Priority first_task \<and>
   Before (CreatedAt first_task) (CreatedAt second_task)"
  by (simp add: two_zone_db_reached All_two_zone_db first_task_def second_task_def Before_def
      example_times_seconds)

lemma count_list_insort_key: "count_list (insort_key f x xs) y = count_list (x # xs) y"
  by (induction xs) auto

lemma count_list_sort_key: "count_list (sort_key f xs) y = count_list xs y"
  by (induction xs) (simp_all add: count_list_insort_key)

lemma All_listed_rows:
  assumes "Service_All s = (Inr ts, s')"
  shows "ts = map scan_task (listed_rows s)"
    and "listed_rows s = sort_key order_key (task_rows (db_file s))"
proof -
  from assms obtain s1 rs where
    d: "driver_call s = (False, s1)" and r: "select_tasks (db_file s1) = Inr rs"
    and t: "ts = map scan_task rs"
    by (auto simp add: Service_All_def SQLiteStore_List_def split: prod.splits bool.splits sum.splits)
  have f: "db_file s1 = db_file s" by (rule driver_call_file [OF d])
  show "ts = map scan_task (listed_rows s)"
    using r t f by (simp add: listed_rows_def)
  show "listed_rows s = sort_key order_key (task_rows (db_file s))"
    using r f by (auto simp add: listed_rows_def select_tasks_def task_rows_def
        split: option.splits if_splits)
qed

lemma rows_in_order_done:
  assumes "stored_done a" "stored_done b" "order_key a \<le> order_key b"
  shows "(Done (scan_task a) \<longrightarrow> Done (scan_task b)) \<and>
         (Done (scan_task a) = Done (scan_task b) \<longrightarrow>
            Priority (scan_task b) \<le> Priority (scan_task a))"
proof -
  have k: "r_done a < r_done b \<or> (r_done a = r_done b \<and> r_priority b \<le> r_priority a)"
    using assms(3) by (auto simp add: order_key_def)
  have d: "Done (scan_task a) = (r_done a = 1)" "Done (scan_task b) = (r_done b = 1)"
    using assms(1,2) by (auto simp add: scan_task_def stored_done_def)
  have p: "Priority (scan_task a) = r_priority a" "Priority (scan_task b) = r_priority b"
    by (simp_all add: scan_task_def)
  show ?thesis
    unfolding d p using k assms(1,2) by (auto simp add: stored_done_def)
qed

lemma All_three_task_db: "Service_All three_task_db = (Inr three_tasks_listed, three_task_db)"
  by (simp add: Service_All_def SQLiteStore_List_def driver_call_def three_task_db_def
      select_tasks_def has_closed_at_bootstrapped bootstrapped_def order_key_def scan_task_def
      parse_or_zero_def parse_shift_times parse_noon three_tasks_listed_def PriorityHigh_def)

lemma format_noon: "time_format noon = ''2024-05-01T12:00:00+03:00''"
  by (simp add: noon_def time_format_def appendInt_def digits_of.simps digit_char_def
      format_zone_def char_of_def bit_simps)

lemma listed_rows_three_task_db:
  "listed_rows three_task_db =
     [\<lparr>r_id = 3, r_title = ''early'', r_description = '''', r_done = 0,
       r_priority = 3, r_created_at = ''2024-05-01T12:00:00+03:00'',
       r_updated_at = ''2024-05-01T12:00:00+03:00'', r_closed_at = None\<rparr>,
      \<lparr>r_id = 2, r_title = ''late'', r_description = '''', r_done = 0,
       r_priority = 3, r_created_at = ''2024-10-27T03:30:00+03:00'',
       r_updated_at = ''2024-10-27T03:30:00+03:00'', r_closed_at = None\<rparr>,
      \<lparr>r_id = 1, r_title = ''done'', r_description = '''', r_done = 1,
       r_priority = 3, r_created_at = ''2024-05-01T12:00:00+03:00'',
       r_updated_at = ''2024-05-01T12:00:00+03:00'',
       r_closed_at = Some ''2024-05-01T12:00:00+03:00''\<rparr>]"
  by (simp add: listed_rows_def three_task_db_def select_tasks_def has_closed_at_bootstrapped
      bootstrapped_def order_key_def)

lemma listed_rows_two_zone_db:
  "listed_rows two_zone_db =
     [\<lparr>r_id = 2, r_title = ''second'', r_description = '''', r_done = 0,
       r_priority = 2, r_created_at = ''2024-10-27T03:10:00+02:00'',
       r_updated_at = ''2024-10-27T03:10:00+02:00'', r_closed_at = None\<rparr>,
      \<lparr>r_id = 1, r_title = ''first'', r_description = '''', r_done = 0,
       r_priority = 2, r_created_at = ''2024-10-27T03:30:00+03:00'',
       r_updated_at = ''2024-10-27T03:30:00+03:00'', r_closed_at = None\<rparr>]"
  by (simp add: listed_rows_def two_zone_db_def select_tasks_def has_closed_at_bootstrapped
      bootstrapped_def order_key_def)

text \<open>C1 (amended): the list that \<open>All\<close> returns holds the rows of \<open>tasks\<close>, each once, sorted
  by the integer of \<open>done\<close>, then by \<open>priority\<close> downwards, then by the text of \<open>created_at\<close>.
  For any two tasks of the list whose rows have \<open>done\<close> 0 or 1: if the earlier one is done,
  so is the later one, and if both have the same \<open>Done\<close>, the later one does not have the
  higher priority. For any two tasks of the list whose rows moreover have a \<open>created_at\<close>
  written by the store with the same zone offset: if both have the same \<open>Done\<close> and priority,
  the later one was not created before the earlier one.\<close>

theorem list_order_pairwise:
  "Service_All s = (Inr ts, s') \<longrightarrow>
     ts = map scan_task (listed_rows s) \<and>
     sorted (map order_key (listed_rows s)) \<and>
     (\<forall>r. count_list (listed_rows s) r = count_list (task_rows (db_file s)) r) \<and>
     (i < j \<and> j < length ts \<and> stored_done (listed_rows s ! i) \<and> stored_done (listed_rows s ! j) \<longrightarrow>
        (Done (ts ! i) \<longrightarrow> Done (ts ! j)) \<and>
        (Done (ts ! i) = Done (ts ! j) \<longrightarrow> Priority (ts ! j) \<le> Priority (ts ! i))) \<and>
     (i < j \<and> j < length ts \<and> row_wf z (listed_rows s ! i) \<and> row_wf z (listed_rows s ! j) \<longrightarrow>
        (Done (ts ! i) = Done (ts ! j) \<and> Priority (ts ! i) = Priority (ts ! j) \<longrightarrow>
           \<not> Before (CreatedAt (ts ! j)) (CreatedAt (ts ! i))))"
proof (intro impI)
  assume a: "Service_All s = (Inr ts, s')"
  define rs where "rs = listed_rows s"
  have ts: "ts = map scan_task rs"
    unfolding rs_def by (rule All_listed_rows(1) [OF a])
  have rs: "rs = sort_key order_key (task_rows (db_file s))"
    unfolding rs_def by (rule All_listed_rows(2) [OF a])
  have so: "sorted (map order_key rs)"
    by (simp add: rs)
  have co: "\<forall>r. count_list rs r = count_list (task_rows (db_file s)) r"
    by (simp add: rs count_list_sort_key)
  have key: "order_key (rs ! i) \<le> order_key (rs ! j)" if "i < j" "j < length ts"
  proof -
    have "map order_key rs ! i \<le> map order_key rs ! j"
      using so that by (intro sorted_nth_mono) (simp_all add: ts)
    then show ?thesis using that by (simp add: ts)
  qed
  have 1: "(Done (ts ! i) \<longrightarrow> Done (ts ! j)) \<and>
        (Done (ts ! i) = Done (ts ! j) \<longrightarrow> Priority (ts ! j) \<le> Priority (ts ! i))"
    if h: "i < j \<and> j < length ts \<and> stored_done (rs ! i) \<and> stored_done (rs ! j)"
  proof -
    from h have ij: "i < j" "j < length ts" and d: "stored_done (rs ! i)" "stored_done (rs ! j)"
      by simp_all
    from rows_in_order_done [OF d key [OF ij]] show ?thesis
      using ij by (simp add: ts)
  qed
  have 2: "Done (ts ! i) = Done (ts ! j) \<and> Priority (ts ! i) = Priority (ts ! j) \<longrightarrow>
           \<not> Before (CreatedAt (ts ! j)) (CreatedAt (ts ! i))"
    if h: "i < j \<and> j < length ts \<and> row_wf z (rs ! i) \<and> row_wf z (rs ! j)"
  proof -
    from h have ij: "i < j" "j < length ts" and w: "row_wf z (rs ! i)" "row_wf z (rs ! j)"
      by simp_all
    from rows_in_order [OF w key [OF ij]] show ?thesis
      using ij by (simp add: ts)
  qed
  from ts so co 1 2 show "ts = map scan_task (listed_rows s) \<and>
     sorted (map order_key (listed_rows s)) \<and>
     (\<forall>r. count_list (listed_rows s) r = count_list (task_rows (db_file s)) r) \<and>
     (i < j \<and> j < length ts \<and> stored_done (listed_rows s ! i) \<and> stored_done (listed_rows s ! j) \<longrightarrow>
        (Done (ts ! i) \<longrightarrow> Done (ts ! j)) \<and>
        (Done (ts ! i) = Done (ts ! j) \<longrightarrow> Priority (ts ! j) \<le> Priority (ts ! i))) \<and>
     (i < j \<and> j < length ts \<and> row_wf z (listed_rows s ! i) \<and> row_wf z (listed_rows s ! j) \<longrightarrow>
        (Done (ts ! i) = Done (ts ! j) \<and> Priority (ts ! i) = Priority (ts ! j) \<longrightarrow>
           \<not> Before (CreatedAt (ts ! j)) (CreatedAt (ts ! i))))"
    unfolding rs_def by blast
qed

theorem list_order_pairwise_witness:
  "Service_All three_task_db = (Inr three_tasks_listed, three_task_db) \<and>
   row_wf 180 (listed_rows three_task_db ! 0) \<and> row_wf 180 (listed_rows three_task_db ! 1) \<and>
   Done (three_tasks_listed ! 0) = Done (three_tasks_listed ! 1) \<and>
   Priority (three_tasks_listed ! 0) = Priority (three_tasks_listed ! 1) \<and>
   \<not> Before (CreatedAt (three_tasks_listed ! 1)) (CreatedAt (three_tasks_listed ! 0)) \<and>
   Service_All two_zone_db = (Inr [second_task, first_task], two_zone_db) \<and>
   stored_done (listed_rows two_zone_db ! 0) \<and> stored_done (listed_rows two_zone_db ! 1) \<and>
   Done ([second_task, first_task] ! 0) = Done ([second_task, first_task] ! 1) \<and>
   Priority ([second_task, first_task] ! 1) \<le> Priority ([second_task, first_task] ! 0)"
proof -
  have w: "row_wf 180 (listed_rows three_task_db ! 0)" "row_wf 180 (listed_rows three_task_db ! 1)"
    unfolding listed_rows_three_task_db
    by (simp_all add: row_wf_def parse_noon parse_shift_times format_noon example_times_format)
       (simp_all add: noon_def before_shift_def)
  have d: "stored_done (listed_rows two_zone_db ! 0)" "stored_done (listed_rows two_zone_db ! 1)"
    unfolding listed_rows_two_zone_db by (simp_all add: stored_done_def)
  have e: "Done (three_tasks_listed ! 0) = Done (three_tasks_listed ! 1)"
    "Priority (three_tasks_listed ! 0) = Priority (three_tasks_listed ! 1)"
    "length three_tasks_listed = 3"
    "Done second_task = Done first_task"
    by (simp_all add: three_tasks_listed_def first_task_def second_task_def)
  have a: "\<not> Before (CreatedAt (three_tasks_listed ! 1)) (CreatedAt (three_tasks_listed ! 0))"
    using list_order_pairwise [of three_task_db three_tasks_listed three_task_db 0 1 180]
      All_three_task_db w e by simp
  have b: "Priority first_task \<le> Priority second_task"
    using list_order_pairwise [of two_zone_db "[second_task, first_task]" two_zone_db 0 1 0]
      All_two_zone_db d e(4) by simp
  show ?thesis
    using All_three_task_db All_two_zone_db w d e a b by simp
qed

section \<open>Writing a task and reading it back\<close>

lemma parse_or_zero_format: "time_ok t \<Longrightarrow> parse_or_zero (time_format t) = whole_seconds t"
  by (simp add: parse_or_zero_def time_ok_def time_parse_format whole_seconds_def)

lemma All_ok:
  assumes "store_ok s"
  shows "Service_All s = (Inr (map scan_task (sort_key order_key (task_rows (db_file s)))), s)"
  using assms
  by (auto simp add: store_ok_def tasks_ready_def Service_All_def SQLiteStore_List_def
      driver_call_def select_tasks_def task_rows_def split: option.splits)

lemma row_of_in_rows: "row_of d i = Some r \<Longrightarrow> r \<in> set (task_rows d) \<and> r_id r = i"
  by (auto simp add: row_of_def find_Some_iff)

lemma listed_row:
  assumes "store_ok s" "row_of (db_file s) i = Some r"
  shows "\<exists>ts s'. Service_All s = (Inr ts, s') \<and> scan_task r \<in> set ts"
  using All_ok [OF assms(1)] row_of_in_rows [OF assms(2)] by simp

lemma scan_new_row:
  assumes "time_ok (CreatedAt t)" "time_ok (UpdatedAt t)"
  shows "scan_task (new_row n t) =
           t\<lparr>ID := n, CreatedAt := whole_seconds (CreatedAt t),
              UpdatedAt := whole_seconds (UpdatedAt t), ClosedAt := None\<rparr>"
  by (simp add: scan_task_def new_row_def parse_or_zero_format assms boolToInt_def)

lemma scan_write_row:
  assumes "time_ok (UpdatedAt t)" "closed_ok (ClosedAt t)" "r_id r = ID t"
  shows "scan_task (write_row t r) =
           t\<lparr>CreatedAt := parse_or_zero (r_created_at r),
              UpdatedAt := whole_seconds (UpdatedAt t),
              ClosedAt := map_option whole_seconds (ClosedAt t)\<rparr>"
proof -
  have "(case map_option time_format (ClosedAt t) of None \<Rightarrow> None | Some c \<Rightarrow> time_parse c)
          = map_option whole_seconds (ClosedAt t)"
    using assms(2)
    by (cases "ClosedAt t") (simp_all add: closed_ok_def time_ok_def time_parse_format whole_seconds_def)
  then show ?thesis
    using assms(1,3) by (simp add: scan_task_def write_row_def parse_or_zero_format boolToInt_def)
qed

lemma closed_rule_ok: "closed_ok (ClosedAt t) \<Longrightarrow> time_ok now \<Longrightarrow> closed_ok (ClosedAt (closed_rule now t))"
  by (simp add: closed_rule_ClosedAt closed_ok_def split: option.splits)

lemma All_one_task_db:
  "Service_All one_task_db
     = (Inr [sample_task\<lparr>CreatedAt := noon, UpdatedAt := noon\<rparr>], one_task_db)"
  by (simp add: Service_All_def SQLiteStore_List_def driver_call_def one_task_db_def
      select_tasks_def has_closed_at_bootstrapped bootstrapped_def scan_task_def
      parse_or_zero_def parse_noon sample_task_def PriorityMedium_def)

lemma Create_sample_task:
  "SQLiteStore_Create (sample_task\<lparr>ID := 0\<rparr>) (snd (New fresh_db)) = (None, sample_task, one_task_db)"
  by (simp add: New_fresh_db SQLiteStore_Create_def driver_call_def
      insert_task_def bootstrapped_def has_closed_at_bootstrapped next_rowid_def boolToInt_def
      example_times_format sample_task_def one_task_db_def PriorityMedium_def)

text \<open>C5 (as stated, refuted): a task whose timestamps have a fraction of a second, written
  by \<open>Create\<close> into a newly opened store, is listed with both timestamps cut to the whole
  second.\<close>

theorem create_list_loses_fraction:
  "SQLiteStore_Create (sample_task\<lparr>ID := 0\<rparr>) (snd (New fresh_db)) = (None, sample_task, one_task_db) \<and>
   Service_All one_task_db
     = (Inr [sample_task\<lparr>CreatedAt := noon, UpdatedAt := noon\<rparr>], one_task_db) \<and>
   CreatedAt sample_task = noon_early \<and> Nanosecond noon_early = 100000000 \<and>
   Nanosecond noon = 0 \<and> sample_task\<lparr>CreatedAt := noon, UpdatedAt := noon\<rparr> \<noteq> sample_task"
proof -
  have "noon \<noteq> noon_early" by (simp add: noon_def noon_early_def)
  then have "sample_task\<lparr>CreatedAt := noon, UpdatedAt := noon\<rparr> \<noteq> sample_task"
    by (simp add: sample_task_def)
  then show ?thesis
    using Create_sample_task All_one_task_db
    by (simp add: sample_task_def noon_def noon_early_def)
qed

text \<open>C5 (amended): for timestamps with a year from 0 to 9999. A task written by \<open>Create\<close>
  is listed with the id that \<open>Create\<close> has assigned, with its title, description, \<open>Done\<close> and
  priority, with \<open>CreatedAt\<close> and \<open>UpdatedAt\<close> cut to whole seconds, and with no closed
  timestamp. A task that has a row, written by \<open>Update\<close>, is listed with the id, title,
  description, \<open>Done\<close> and priority of the task object as \<open>Update\<close> leaves it, with its
  \<open>UpdatedAt\<close> and its closed timestamp (absent or present alike) cut to whole seconds, and
  with the \<open>CreatedAt\<close> read from the row, which \<open>Update\<close> does not write.\<close>

theorem round_trip_to_the_second:
  "(store_ok s \<and> time_ok (CreatedAt t) \<and> time_ok (UpdatedAt t) \<longrightarrow>
      (\<exists>n s' ts s''. SQLiteStore_Create t s = (None, t\<lparr>ID := n\<rparr>, s') \<and>
         Service_All s' = (Inr ts, s'') \<and>
         t\<lparr>ID := n, CreatedAt := whole_seconds (CreatedAt t),
            UpdatedAt := whole_seconds (UpdatedAt t), ClosedAt := None\<rparr> \<in> set ts)) \<and>
   (store_ok s \<and> row_of (db_file s) (ID t) = Some r \<and> time_ok (UpdatedAt t) \<and>
    closed_ok (ClosedAt t) \<and> time_ok now \<longrightarrow>
      (\<exists>t' s' ts s''. SQLiteStore_Update now t s = (None, t', s') \<and>
         Service_All s' = (Inr ts, s'') \<and>
         ID t' = ID t \<and> Title t' = Title t \<and> Description t' = Description t \<and>
         Done t' = Done t \<and> Priority t' = Priority t \<and>
         t'\<lparr>CreatedAt := parse_or_zero (r_created_at r),
             UpdatedAt := whole_seconds (UpdatedAt t),
             ClosedAt := map_option whole_seconds (ClosedAt t')\<rparr> \<in> set ts))"
proof (intro conjI impI)
  assume a: "store_ok s \<and> time_ok (CreatedAt t) \<and> time_ok (UpdatedAt t)"
  from Create_ok [of s t] a obtain n d where
    c: "SQLiteStore_Create t s = (None, t\<lparr>ID := n\<rparr>, s\<lparr>db_file := d\<rparr>)"
      "store_ok (s\<lparr>db_file := d\<rparr>)" "row_of d n = Some (new_row n t)"
    by blast
  from listed_row [OF c(2), of n "new_row n t"] c(3) obtain ts s'' where
    l: "Service_All (s\<lparr>db_file := d\<rparr>) = (Inr ts, s'')" "scan_task (new_row n t) \<in> set ts"
    by auto
  have "t\<lparr>ID := n, CreatedAt := whole_seconds (CreatedAt t),
            UpdatedAt := whole_seconds (UpdatedAt t), ClosedAt := None\<rparr> \<in> set ts"
    using l(2) a by (simp add: scan_new_row)
  with c(1) l(1) show "\<exists>n s' ts s''. SQLiteStore_Create t s = (None, t\<lparr>ID := n\<rparr>, s') \<and>
         Service_All s' = (Inr ts, s'') \<and>
         t\<lparr>ID := n, CreatedAt := whole_seconds (CreatedAt t),
            UpdatedAt := whole_seconds (UpdatedAt t), ClosedAt := None\<rparr> \<in> set ts"
    by blast
next
  assume a: "store_ok s \<and> row_of (db_file s) (ID t) = Some r \<and> time_ok (UpdatedAt t) \<and>
    closed_ok (ClosedAt t) \<and> time_ok now"
  then have ok: "store_ok s" and r: "row_of (db_file s) (ID t) = Some r"
    and u: "time_ok (UpdatedAt t)" and co: "closed_ok (ClosedAt t)" and n: "time_ok now"
    by simp_all
  define t' where "t' = closed_rule now t"
  define s' where "s' = store_after (SQLiteStore_Update now t s)"
  have e: "SQLiteStore_Update now t s = (None, t', s')"
    using Update_ok_store(2) [OF ok, of now t] task_after_Update [of now t s]
    by (cases "SQLiteStore_Update now t s") (simp add: t'_def s'_def task_after_def store_after_def)
  have ok': "store_ok s'"
    unfolding s'_def by (rule Update_ok_store(1) [OF ok])
  have r': "row_of (db_file s') (ID t) = Some (write_row t' r)"
    unfolding s'_def t'_def using Update_ok_store(3) [OF ok, of now t] r by simp
  from listed_row [OF ok' r'] obtain ts s'' where
    l: "Service_All s' = (Inr ts, s'')" "scan_task (write_row t' r) \<in> set ts"
    by blast
  have i: "r_id r = ID t'"
    using row_of_in_rows [OF r] by (simp add: t'_def)
  have "scan_task (write_row t' r) =
      t'\<lparr>CreatedAt := parse_or_zero (r_created_at r), UpdatedAt := whole_seconds (UpdatedAt t'),
         ClosedAt := map_option whole_seconds (ClosedAt t')\<rparr>"
    by (rule scan_write_row [OF _ _ i]) (simp_all add: t'_def u closed_rule_ok [OF co n])
  then have m: "t'\<lparr>CreatedAt := parse_or_zero (r_created_at r),
             UpdatedAt := whole_seconds (UpdatedAt t),
             ClosedAt := map_option whole_seconds (ClosedAt t')\<rparr> \<in> set ts"
    using l(2) by (simp add: t'_def)
  have f: "ID t' = ID t" "Title t' = Title t" "Description t' = Description t"
    "Done t' = Done t" "Priority t' = Priority t"
    by (simp_all add: t'_def)
  from e l(1) f m show "\<exists>t' s' ts s''. SQLiteStore_Update now t s = (None, t', s') \<and>
         Service_All s' = (Inr ts, s'') \<and>
         ID t' = ID t \<and> Title t' = Title t \<and> Description t' = Description t \<and>
         Done t' = Done t \<and> Priority t' = Priority t \<and>
         t'\<lparr>CreatedAt := parse_or_zero (r_created_at r),
             UpdatedAt := whole_seconds (UpdatedAt t),
             ClosedAt := map_option whole_seconds (ClosedAt t')\<rparr> \<in> set ts"
    by blast
qed

lemma example_times_ok: "time_ok noon_early" "time_ok noon_late"
  by (simp_all add: time_ok_def example_times_valid)

theorem round_trip_to_the_second_witness:
  "store_ok (snd (New fresh_db)) \<and> time_ok (CreatedAt (sample_task\<lparr>ID := 0\<rparr>)) \<and>
   time_ok (UpdatedAt (sample_task\<lparr>ID := 0\<rparr>)) \<and>
   (\<exists>n s' ts s''.
      SQLiteStore_Create (sample_task\<lparr>ID := 0\<rparr>) (snd (New fresh_db))
        = (None, sample_task\<lparr>ID := n\<rparr>, s') \<and>
      Service_All s' = (Inr ts, s'') \<and>
      sample_task\<lparr>ID := n, CreatedAt := whole_seconds noon_early,
                   UpdatedAt := whole_seconds noon_early, ClosedAt := None\<rparr> \<in> set ts) \<and>
   store_ok one_task_db \<and>
   row_of (db_file one_task_db) (ID (sample_task\<lparr>Done := True\<rparr>)) = Some sample_row \<and>
   closed_ok (ClosedAt (sample_task\<lparr>Done := True\<rparr>)) \<and>
   (\<exists>t' s' ts s''.
      SQLiteStore_Update noon_late (sample_task\<lparr>Done := True\<rparr>) one_task_db = (None, t', s') \<and>
      Service_All s' = (Inr ts, s'') \<and> Done t' \<and>
      t'\<lparr>CreatedAt := parse_or_zero (r_created_at sample_row),
          UpdatedAt := whole_seconds noon_early,
          ClosedAt := map_option whole_seconds (ClosedAt t')\<rparr> \<in> set ts)"
proof -
  have h: "CreatedAt (sample_task\<lparr>ID := 0\<rparr>) = noon_early"
    "UpdatedAt (sample_task\<lparr>ID := 0\<rparr>) = noon_early"
    "UpdatedAt (sample_task\<lparr>Done := True\<rparr>) = noon_early"
    "ID (sample_task\<lparr>Done := True\<rparr>) = ID sample_task"
    "closed_ok (ClosedAt (sample_task\<lparr>Done := True\<rparr>))"
    "Done (sample_task\<lparr>Done := True\<rparr>)"
    by (simp_all add: sample_task_def closed_ok_def)
  from round_trip_to_the_second [of "snd (New fresh_db)" "sample_task\<lparr>ID := 0\<rparr>", THEN conjunct1]
  have 1: "\<exists>n s' ts s''.
      SQLiteStore_Create (sample_task\<lparr>ID := 0\<rparr>) (snd (New fresh_db))
        = (None, sample_task\<lparr>ID := n\<rparr>, s') \<and>
      Service_All s' = (Inr ts, s'') \<and>
      sample_task\<lparr>ID := n, CreatedAt := whole_seconds noon_early,
                   UpdatedAt := whole_seconds noon_early, ClosedAt := None\<rparr> \<in> set ts"
    using New_fresh_db_ok example_times_ok h(1,2) by simp
  from round_trip_to_the_second [of one_task_db "sample_task\<lparr>Done := True\<rparr>" sample_row
      noon_late, THEN conjunct2]
  have "\<exists>t' s' ts s''.
      SQLiteStore_Update noon_late (sample_task\<lparr>Done := True\<rparr>) one_task_db = (None, t', s') \<and>
      Service_All s' = (Inr ts, s'') \<and>
      ID t' = ID (sample_task\<lparr>Done := True\<rparr>) \<and> Title t' = Title (sample_task\<lparr>Done := True\<rparr>) \<and>
      Description t' = Description (sample_task\<lparr>Done := True\<rparr>) \<and>
      Done t' = Done (sample_task\<lparr>Done := True\<rparr>) \<and>
      Priority t' = Priority (sample_task\<lparr>Done := True\<rparr>) \<and>
      t'\<lparr>CreatedAt := parse_or_zero (r_created_at sample_row),
          UpdatedAt := whole_seconds (UpdatedAt (sample_task\<lparr>Done := True\<rparr>)),
          ClosedAt := map_option whole_seconds (ClosedAt t')\<rparr> \<in> set ts"
    using one_task_db_ok(1) sample_row_of example_times_ok h(3,4,5)
    by (simp only: simp_thms)
  then have 2: "\<exists>t' s' ts s''.
      SQLiteStore_Update noon_late (sample_task\<lparr>Done := True\<rparr>) one_task_db = (None, t', s') \<and>
      Service_All s' = (Inr ts, s'') \<and> Done t' \<and>
      t'\<lparr>CreatedAt := parse_or_zero (r_created_at sample_row),
          UpdatedAt := whole_seconds noon_early,
          ClosedAt := map_option whole_seconds (ClosedAt t')\<rparr> \<in> set ts"
    unfolding h(3) using h(6) by blast
  show ?thesis
    using 1 2 New_fresh_db_ok example_times_ok one_task_db_ok(1) sample_row_of h
    by (simp only: simp_thms)
qed

end
